theory Spec2Isabelle
  imports
    Main
    "HOL-Library.AList"
    "HOL-Library.Char_ord"
    "HOL-Library.List_Lexorder"
    "HOL-Library.Multiset"
begin

unbundle bit_operations_syntax

section \<open>Python values\<close>

text \<open>
  A Python \<open>str\<close> is modelled as a \<open>string\<close> whose characters are the code points
  below 256; \<open>of_char c\<close> is the code point. The exceptions the modelled code can raise
  are values of \<open>py_error\<close>.
\<close>

datatype py_error = KeyError | ValueError | UnicodeEncodeError

text \<open>
  The values found in node attributes, fragment records and ID payloads: \<open>None\<close>, an
  \<open>int\<close>, a \<open>str\<close> and a \<open>float\<close>. The floats of this program are read from decimal
  numerals: \<open>AFloat m k\<close> stands for the float nearest to \<open>m / 10 ^ k\<close>.
\<close>

datatype aval = ANone | AInt int | AFloat nat nat | AStr string

subsection \<open>Characters and strings\<close>

definition is_space :: "char \<Rightarrow> bool" where
  \<comment> \<open>\<open>str.isspace\<close>, which is also the class \<open>\s\<close> of \<open>re\<close> on \<open>str\<close> patterns\<close>
  "is_space c = (let n = (of_char c :: nat) in
     (9 \<le> n \<and> n \<le> 13) \<or> (28 \<le> n \<and> n \<le> 32) \<or> n = 133 \<or> n = 160)"

definition is_digit :: "char \<Rightarrow> bool" where
  \<comment> \<open>the class \<open>[0-9]\<close>\<close>
  "is_digit c = (let n = (of_char c :: nat) in 48 \<le> n \<and> n \<le> 57)"

definition lower_char :: "char \<Rightarrow> char" where
  "lower_char c = (let n = (of_char c :: nat) in
     if (65 \<le> n \<and> n \<le> 90) \<or> (192 \<le> n \<and> n \<le> 222 \<and> n \<noteq> 215)
     then char_of (n + 32) else c)"

definition py_lower :: "string \<Rightarrow> string" where
  \<comment> \<open>\<open>s.lower()\<close>\<close>
  "py_lower s = map lower_char s"

definition strip :: "string \<Rightarrow> string" where
  \<comment> \<open>\<open>s.strip()\<close>\<close>
  "strip s = rev (dropWhile is_space (rev (dropWhile is_space s)))"

definition remove_char :: "char \<Rightarrow> string \<Rightarrow> string" where
  \<comment> \<open>\<open>s.replace(c, "")\<close> for a single character \<open>c\<close>\<close>
  "remove_char c s = filter (\<lambda>x. x \<noteq> c) s"

fun join :: "string \<Rightarrow> string list \<Rightarrow> string" where
  \<comment> \<open>\<open>sep.join(xs)\<close>\<close>
  "join sep [] = []"
| "join sep [x] = x"
| "join sep (x # y # ys) = x @ sep @ join sep (y # ys)"

fun split_on :: "char \<Rightarrow> string \<Rightarrow> string list" where
  \<comment> \<open>\<open>s.split(sep)\<close> for a single character \<open>sep\<close>\<close>
  "split_on sep [] = [[]]"
| "split_on sep (c # cs) =
     (if c = sep then [] # split_on sep cs
      else (case split_on sep cs of [] \<Rightarrow> [[c]] | p # ps \<Rightarrow> (c # p) # ps))"

definition digit_char :: "nat \<Rightarrow> char" where
  "digit_char d = ''0123456789'' ! d"

fun show_nat :: "nat \<Rightarrow> string" where
  "show_nat n = (if n < 10 then [digit_char n] else show_nat (n div 10) @ [digit_char (n mod 10)])"

declare show_nat.simps [simp del]

definition show_int :: "int \<Rightarrow> string" where
  \<comment> \<open>\<open>str(i)\<close> of an \<open>int\<close>\<close>
  "show_int i = (if i < 0 then CHR ''-'' # show_nat (nat (- i)) else show_nat (nat i))"

fun frac_digits :: "nat \<Rightarrow> nat \<Rightarrow> string" where
  \<comment> \<open>the last \<open>k\<close> decimal digits of \<open>n\<close>\<close>
  "frac_digits 0 n = []"
| "frac_digits (Suc k) n = frac_digits k (n div 10) @ [digit_char (n mod 10)]"

definition float_repr :: "nat \<Rightarrow> nat \<Rightarrow> string" where
  \<comment> \<open>\<open>repr\<close> of the float nearest to \<open>m / 10 ^ k\<close>, which is the shortest decimal that
      reads back as that float: the numeral itself without its trailing zeros, for the
      amounts of this program (at most three integer digits and two decimals)\<close>
  "float_repr m k =
     (let f = rev (dropWhile (\<lambda>c. c = CHR ''0'') (rev (frac_digits k (m mod 10 ^ k))))
      in show_nat (m div 10 ^ k) @ ''.'' @ (if f = [] then ''0'' else f))"

fun py_str :: "aval \<Rightarrow> string" where
  \<comment> \<open>\<open>str(v)\<close>\<close>
  "py_str ANone = ''None''"
| "py_str (AInt i) = show_int i"
| "py_str (AFloat m k) = float_repr m k"
| "py_str (AStr s) = s"

text \<open>
  \<open>float(s)\<close> on the strings the patterns of this program capture, which hold digits
  and dots only and start with a digit: the numeral is read when it has at most one
  dot, and \<open>float\<close> raises \<open>ValueError\<close> (here \<open>None\<close>) otherwise.
\<close>

definition digits_value :: "string \<Rightarrow> nat" where
  "digits_value s = foldl (\<lambda>n c. 10 * n + (of_char c - 48)) 0 s"

definition py_float :: "string \<Rightarrow> (nat \<times> nat) option" where
  "py_float s =
     (if s = [] \<or> \<not> is_digit (hd s) \<or> (\<exists>c \<in> set s. \<not> is_digit c \<and> c \<noteq> CHR ''.'') then None
      else let ip = takeWhile is_digit s; rest = dropWhile is_digit s in
        if rest = [] then Some (digits_value ip, 0)
        else if list_all is_digit (tl rest) then Some (digits_value (ip @ tl rest), length (tl rest))
        else None)"

subsection \<open>Dictionaries with string keys\<close>

type_synonym attrs = "(string \<times> aval) list"

definition dict_get :: "attrs \<Rightarrow> string \<Rightarrow> aval" where
  \<comment> \<open>\<open>d.get(k)\<close>\<close>
  "dict_get d k = (case map_of d k of None \<Rightarrow> ANone | Some v \<Rightarrow> v)"

definition dict_get_default :: "attrs \<Rightarrow> string \<Rightarrow> aval \<Rightarrow> aval" where
  \<comment> \<open>\<open>d.get(k, dflt)\<close>\<close>
  "dict_get_default d k dflt = (case map_of d k of None \<Rightarrow> dflt | Some v \<Rightarrow> v)"

section \<open>Content-addressed identifiers\<close>

subsection \<open>BLAKE2s\<close>

text \<open>
  \<open>hashlib.blake2s\<close> without key, after RFC 7693. A 32-bit word is a \<open>nat\<close> below
  \<open>2 ^ 32\<close>; addition wraps with \<open>mod 2 ^ 32\<close> written out. A byte is a \<open>nat\<close> below 256.
\<close>

definition blake2s_iv :: "nat list" where
  "blake2s_iv = [0x6A09E667, 0xBB67AE85, 0x3C6EF372, 0xA54FF53A,
                 0x510E527F, 0x9B05688C, 0x1F83D9AB, 0x5BE0CD19]"

definition blake2s_sigma :: "nat list list" where
  "blake2s_sigma =
    [[0, 1, 2, 3, 4, 5, 6, 7, 8, 9, 10, 11, 12, 13, 14, 15],
     [14, 10, 4, 8, 9, 15, 13, 6, 1, 12, 0, 2, 11, 7, 5, 3],
     [11, 8, 12, 0, 5, 2, 15, 13, 10, 14, 3, 6, 7, 1, 9, 4],
     [7, 9, 3, 1, 13, 12, 11, 14, 2, 6, 5, 10, 4, 0, 15, 8],
     [9, 0, 5, 7, 2, 4, 10, 15, 14, 1, 11, 12, 6, 8, 3, 13],
     [2, 12, 6, 10, 0, 11, 8, 3, 4, 13, 7, 5, 15, 14, 1, 9],
     [12, 5, 1, 15, 14, 13, 4, 10, 0, 7, 6, 3, 9, 2, 8, 11],
     [13, 11, 7, 14, 12, 1, 3, 9, 5, 0, 15, 4, 8, 6, 2, 10],
     [6, 15, 14, 9, 11, 3, 0, 8, 12, 2, 13, 7, 1, 4, 10, 5],
     [10, 2, 8, 4, 7, 6, 1, 5, 15, 11, 9, 14, 3, 12, 13, 0]]"

definition blake2s_lanes :: "(nat \<times> nat \<times> nat \<times> nat) list" where
  \<comment> \<open>the four columns, then the four diagonals, of the working vector\<close>
  "blake2s_lanes = [(0, 4, 8, 12), (1, 5, 9, 13), (2, 6, 10, 14), (3, 7, 11, 15),
                    (0, 5, 10, 15), (1, 6, 11, 12), (2, 7, 8, 13), (3, 4, 9, 14)]"

definition add32 :: "nat \<Rightarrow> nat \<Rightarrow> nat" where
  "add32 a b = (a + b) mod 4294967296"

definition rotr32 :: "nat \<Rightarrow> nat \<Rightarrow> nat" where
  "rotr32 n w = w div 2 ^ n + (w mod 2 ^ n) * 2 ^ (32 - n)"

text \<open>The mixing function G, one function for each kind of line of its body.\<close>

fun mix_a :: "nat \<Rightarrow> nat \<times> nat \<times> nat \<times> nat \<Rightarrow> nat \<times> nat \<times> nat \<times> nat" where
  "mix_a x (a, b, c, d) = (add32 (add32 a b) x, b, c, d)"

fun mix_d :: "nat \<Rightarrow> nat \<times> nat \<times> nat \<times> nat \<Rightarrow> nat \<times> nat \<times> nat \<times> nat" where
  "mix_d r (a, b, c, d) = (a, b, c, rotr32 r (d XOR a))"

fun mix_c :: "nat \<times> nat \<times> nat \<times> nat \<Rightarrow> nat \<times> nat \<times> nat \<times> nat" where
  "mix_c (a, b, c, d) = (a, b, add32 c d, d)"

fun mix_b :: "nat \<Rightarrow> nat \<times> nat \<times> nat \<times> nat \<Rightarrow> nat \<times> nat \<times> nat \<times> nat" where
  "mix_b r (a, b, c, d) = (a, rotr32 r (b XOR c), c, d)"

definition blake2s_g ::
  "nat \<Rightarrow> nat \<Rightarrow> nat \<times> nat \<times> nat \<times> nat \<Rightarrow> nat \<times> nat \<times> nat \<times> nat" where
  "blake2s_g x y q =
     mix_b 7 (mix_c (mix_d 8 (mix_a y (mix_b 12 (mix_c (mix_d 16 (mix_a x q)))))))"

fun put4 ::
  "nat list \<Rightarrow> nat \<times> nat \<times> nat \<times> nat \<Rightarrow> nat \<times> nat \<times> nat \<times> nat \<Rightarrow> nat list" where
  "put4 v (a, b, c, d) (va, vb, vc, vd) = v[a := va, b := vb, c := vc, d := vd]"

fun blake2s_mix :: "nat list \<Rightarrow> nat \<times> nat \<times> nat \<times> nat \<Rightarrow> nat \<Rightarrow> nat \<Rightarrow> nat list" where
  "blake2s_mix v (a, b, c, d) x y =
     put4 v (a, b, c, d) (blake2s_g x y (v ! a, v ! b, v ! c, v ! d))"

fun blake2s_round ::
  "nat list \<Rightarrow> (nat \<times> nat \<times> nat \<times> nat) list \<Rightarrow> nat list \<Rightarrow> nat list \<Rightarrow> nat list" where
  \<comment> \<open>one round: each lane is mixed with the next two message words of the schedule\<close>
  "blake2s_round m (lane # lanes) v (i # j # s) =
     blake2s_round m lanes (blake2s_mix v lane (m ! i) (m ! j)) s"
| "blake2s_round m lanes v s = v"

fun blake2s_rounds :: "nat list \<Rightarrow> nat list \<Rightarrow> nat list list \<Rightarrow> nat list" where
  "blake2s_rounds m v [] = v"
| "blake2s_rounds m v (s # ss) = blake2s_rounds m (blake2s_round m blake2s_lanes v s) ss"

fun le_words :: "nat list \<Rightarrow> nat list" where
  \<comment> \<open>the little-endian 32-bit words of a byte string\<close>
  "le_words (b0 # b1 # b2 # b3 # bs) =
     (b0 + 256 * b1 + 65536 * b2 + 16777216 * b3) # le_words bs"
| "le_words bs = []"

definition zero_block :: "nat list" where
  "zero_block = [0, 0, 0, 0, 0, 0, 0, 0, 0, 0, 0, 0, 0, 0, 0, 0,
                 0, 0, 0, 0, 0, 0, 0, 0, 0, 0, 0, 0, 0, 0, 0, 0,
                 0, 0, 0, 0, 0, 0, 0, 0, 0, 0, 0, 0, 0, 0, 0, 0,
                 0, 0, 0, 0, 0, 0, 0, 0, 0, 0, 0, 0, 0, 0, 0, 0]"

definition blake2s_start :: "nat list \<Rightarrow> nat \<Rightarrow> bool \<Rightarrow> nat list" where
  \<comment> \<open>the working vector: the state, then the IV with the byte counter \<open>t\<close> and the
      final-block flag mixed in\<close>
  "blake2s_start h t final =
     h @ [blake2s_iv ! 0, blake2s_iv ! 1, blake2s_iv ! 2, blake2s_iv ! 3,
          blake2s_iv ! 4 XOR t mod 4294967296,
          blake2s_iv ! 5 XOR t div 4294967296 mod 4294967296,
          (if final then blake2s_iv ! 6 XOR 4294967295 else blake2s_iv ! 6),
          blake2s_iv ! 7]"

definition blake2s_finish :: "nat list \<Rightarrow> nat list \<Rightarrow> nat list" where
  "blake2s_finish h v = map2 (XOR) h (map2 (XOR) (take 8 v) (drop 8 v))"

definition blake2s_compress :: "nat list \<Rightarrow> nat list \<Rightarrow> nat \<Rightarrow> bool \<Rightarrow> nat list" where
  "blake2s_compress h block t final =
     blake2s_finish h
       (blake2s_rounds (le_words (take 64 (block @ zero_block)))
          (blake2s_start h t final) blake2s_sigma)"

function blake2s_blocks :: "nat list \<Rightarrow> nat list \<Rightarrow> nat \<Rightarrow> nat list" where
  "blake2s_blocks h bs t =
     (if length bs \<le> 64 then blake2s_compress h bs (t + length bs) True
      else blake2s_blocks (blake2s_compress h (take 64 bs) (t + 64) False) (drop 64 bs) (t + 64))"
  by pat_completeness auto
termination
  by (relation "measure (\<lambda>(h, bs, t). length bs)") auto

declare blake2s_blocks.simps [simp del]

fun word_bytes :: "nat \<Rightarrow> nat list" where
  "word_bytes w = [w mod 256, w div 256 mod 256, w div 65536 mod 256, w div 16777216 mod 256]"

definition blake2s :: "nat \<Rightarrow> nat list \<Rightarrow> nat list" where
  \<comment> \<open>\<open>blake2s(bs, digest_size=n).digest()\<close>\<close>
  "blake2s digest_size bs =
     take digest_size (concat (map word_bytes
       (blake2s_blocks (blake2s_iv[0 := blake2s_iv ! 0 XOR 0x01010000 XOR digest_size]) bs 0)))"

definition hex_digits :: string where
  "hex_digits = ''0123456789abcdef''"

definition hex_char :: "nat \<Rightarrow> char" where
  "hex_char d = hex_digits ! d"

fun hex_byte :: "nat \<Rightarrow> string" where
  "hex_byte b = [hex_char (b div 16), hex_char (b mod 16)]"

definition hexdigest :: "nat list \<Rightarrow> string" where
  "hexdigest bs = concat (map hex_byte bs)"

subsection \<open>JSON serialisation of a payload\<close>

text \<open>
  \<open>json.dumps(payload, ensure_ascii=False, sort_keys=True)\<close> for a dictionary whose
  values are atoms or lists of atoms.
\<close>

datatype jval = JAtom aval | JList "aval list"

definition json_escape :: "char \<Rightarrow> string" where
  "json_escape c = (let n = (of_char c :: nat) in
     if c = CHR 0x22 then [CHR 0x5C, CHR 0x22]
     else if c = CHR 0x5C then [CHR 0x5C, CHR 0x5C]
     else if c = CHR 0x0A then [CHR 0x5C, CHR ''n'']
     else if c = CHR 0x0D then [CHR 0x5C, CHR ''r'']
     else if c = CHR 0x09 then [CHR 0x5C, CHR ''t'']
     else if c = CHR 0x08 then [CHR 0x5C, CHR ''b'']
     else if c = CHR 0x0C then [CHR 0x5C, CHR ''f'']
     else if n < 32 then [CHR 0x5C, CHR ''u'', CHR ''0'', CHR ''0'', hex_char (n div 16), hex_char (n mod 16)]
     else [c])"

definition json_string :: "string \<Rightarrow> string" where
  "json_string s = [CHR 0x22] @ concat (map json_escape s) @ [CHR 0x22]"

fun json_atom :: "aval \<Rightarrow> string" where
  "json_atom ANone = ''null''"
| "json_atom (AInt i) = show_int i"
| "json_atom (AFloat m k) = float_repr m k"
| "json_atom (AStr s) = json_string s"

fun json_value :: "jval \<Rightarrow> string" where
  "json_value (JAtom a) = json_atom a"
| "json_value (JList xs) = ''['' @ join '', '' (map json_atom xs) @ '']''"

definition json_item :: "string \<times> jval \<Rightarrow> string" where
  "json_item kv = json_string (fst kv) @ '': '' @ json_value (snd kv)"

definition json_dumps :: "(string \<times> jval) list \<Rightarrow> string" where
  "json_dumps d = ''{'' @ join '', '' (map json_item (sort_key fst d)) @ ''}''"

subsection \<open>make\_id\<close>

definition utf8 :: "string \<Rightarrow> nat list" where
  \<comment> \<open>\<open>s.encode()\<close>\<close>
  "utf8 s = concat (map (\<lambda>c. let n = (of_char c :: nat) in
     if n < 128 then [n] else [192 + n div 64, 128 + n mod 64]) s)"

datatype payload = PStr string | PDict "(string \<times> jval) list"

definition canonical :: "payload \<Rightarrow> string" where
  \<comment> \<open>the string that is hashed\<close>
  "canonical p = (case p of PStr s \<Rightarrow> s | PDict d \<Rightarrow> take 2048 (json_dumps d))"

definition make_id :: "string \<Rightarrow> payload \<Rightarrow> string" where
  "make_id prefix p = prefix @ '':'' @ hexdigest (blake2s 8 (utf8 (canonical p)))"

subsection \<open>make\_id on every string\<close>

text \<open>
  A Python \<open>str\<close> in full is a list of code points, among them the surrogates
  \<open>0xD800\<close> to \<open>0xDFFF\<close>, which \<open>encode\<close> refuses. \<open>make_id_unicode\<close> is
  \<open>make_id\<close> on such strings; \<open>make_id\<close> above is its restriction to the code points
  below 256 (lemma \<open>make_id_unicode_points\<close>).
\<close>

type_synonym ustring = "nat list"

definition points :: "string \<Rightarrow> ustring" where
  "points s = map of_char s"

datatype uatom = UNone | UInt int | UFloat nat nat | UStr ustring

datatype ujson = UAtom uatom | UList "uatom list"

datatype upayload = UPStr ustring | UPDict "(ustring \<times> ujson) list"

fun atom_points :: "aval \<Rightarrow> uatom" where
  "atom_points ANone = UNone"
| "atom_points (AInt i) = UInt i"
| "atom_points (AFloat m k) = UFloat m k"
| "atom_points (AStr s) = UStr (points s)"

fun jval_points :: "jval \<Rightarrow> ujson" where
  "jval_points (JAtom a) = UAtom (atom_points a)"
| "jval_points (JList xs) = UList (map atom_points xs)"

definition item_points :: "string \<times> jval \<Rightarrow> ustring \<times> ujson" where
  "item_points kv = (points (fst kv), jval_points (snd kv))"

fun payload_points :: "payload \<Rightarrow> upayload" where
  "payload_points (PStr s) = UPStr (points s)"
| "payload_points (PDict d) = UPDict (map item_points d)"

fun join_points :: "ustring \<Rightarrow> ustring list \<Rightarrow> ustring" where
  "join_points sep [] = []"
| "join_points sep [x] = x"
| "join_points sep (x # y # ys) = x @ sep @ join_points sep (y # ys)"

definition json_escape_point :: "nat \<Rightarrow> ustring" where
  \<comment> \<open>with \<open>ensure_ascii=False\<close> only characters below 256 are ever escaped\<close>
  "json_escape_point n = (if n < 256 then points (json_escape (char_of n)) else [n])"

definition json_string_points :: "ustring \<Rightarrow> ustring" where
  "json_string_points s = [34] @ concat (map json_escape_point s) @ [34]"

fun json_atom_points :: "uatom \<Rightarrow> ustring" where
  "json_atom_points UNone = points ''null''"
| "json_atom_points (UInt i) = points (show_int i)"
| "json_atom_points (UFloat m k) = points (float_repr m k)"
| "json_atom_points (UStr s) = json_string_points s"

fun json_value_points :: "ujson \<Rightarrow> ustring" where
  "json_value_points (UAtom a) = json_atom_points a"
| "json_value_points (UList xs) =
     points ''['' @ join_points (points '', '') (map json_atom_points xs) @ points '']''"

definition json_item_points :: "ustring \<times> ujson \<Rightarrow> ustring" where
  "json_item_points kv = json_string_points (fst kv) @ points '': '' @ json_value_points (snd kv)"

definition json_dumps_points :: "(ustring \<times> ujson) list \<Rightarrow> ustring" where
  "json_dumps_points d =
     points ''{'' @ join_points (points '', '') (map json_item_points (sort_key fst d)) @ points ''}''"

definition is_surrogate :: "nat \<Rightarrow> bool" where
  "is_surrogate n = (55296 \<le> n \<and> n \<le> 57343)"

definition utf8_point :: "nat \<Rightarrow> nat list" where
  \<comment> \<open>the UTF-8 bytes of a code point that is no surrogate\<close>
  "utf8_point n =
     (if n < 128 then [n]
      else if n < 2048 then [192 + n div 64, 128 + n mod 64]
      else if n < 65536 then [224 + n div 4096, 128 + n div 64 mod 64, 128 + n mod 64]
      else [240 + n div 262144, 128 + n div 4096 mod 64, 128 + n div 64 mod 64, 128 + n mod 64])"

definition encode :: "ustring \<Rightarrow> py_error + nat list" where
  \<comment> \<open>\<open>s.encode()\<close>\<close>
  "encode s =
     (if \<exists>n \<in> set s. is_surrogate n then Inl UnicodeEncodeError
      else Inr (concat (map utf8_point s)))"

definition canonical_points :: "upayload \<Rightarrow> ustring" where
  "canonical_points p = (case p of UPStr s \<Rightarrow> s | UPDict d \<Rightarrow> take 2048 (json_dumps_points d))"

definition make_id_unicode :: "ustring \<Rightarrow> upayload \<Rightarrow> py_error + ustring" where
  "make_id_unicode prefix p =
     (case encode (canonical_points p) of
        Inl e \<Rightarrow> Inl e
      | Inr bs \<Rightarrow> Inr (prefix @ [58] @ points (hexdigest (blake2s 8 bs))))"

section \<open>Extraction (extract\_and\_index.py)\<close>

subsection \<open>Regular expressions\<close>

text \<open>
  \<open>re.search\<close> tries the start positions from the left and returns the first match;
  \<open>rx_search m s\<close> does so for a matcher \<open>m\<close> that is anchored at the start of its
  argument and returns group 1 of the match.
\<close>

fun rx_search :: "(string \<Rightarrow> 'a option) \<Rightarrow> string \<Rightarrow> 'a option" where
  "rx_search m [] = m []"
| "rx_search m (c # cs) = (case m (c # cs) of Some g \<Rightarrow> Some g | None \<Rightarrow> rx_search m cs)"

fun first_some :: "('a \<Rightarrow> 'b option) \<Rightarrow> 'a list \<Rightarrow> 'b option" where
  "first_some f [] = None"
| "first_some f (x # xs) = (case f x of Some y \<Rightarrow> Some y | None \<Rightarrow> first_some f xs)"

fun strip_prefix_ci :: "string \<Rightarrow> string \<Rightarrow> string option" where
  \<comment> \<open>a literal under \<open>re.IGNORECASE\<close>: the rest of the text after it\<close>
  "strip_prefix_ci [] s = Some s"
| "strip_prefix_ci (l # ls) [] = None"
| "strip_prefix_ci (l # ls) (c # cs) =
     (if lower_char c = lower_char l then strip_prefix_ci ls cs else None)"

definition drop_dollar :: "string \<Rightarrow> string" where
  \<comment> \<open>\<open>\$?\<close>\<close>
  "drop_dollar s = (case s of [] \<Rightarrow> [] | c # cs \<Rightarrow> if c = CHR ''$'' then cs else c # cs)"

subsection \<open>parse\_money\<close>

text \<open>
  \<open>money_rx\<close> is \<^verbatim>\<open>\$?\s*([0-9]{1,3}(?:[, ][0-9]{3})*(?:\.[0-9]{2})?)\<close>. Once a
  digit is found every later part is optional, so the greedy choice is the match.
\<close>

definition is_sep :: "char \<Rightarrow> bool" where
  "is_sep c = (c = CHR '','' \<or> c = CHR '' '')"

fun digit_groups :: "string \<Rightarrow> string" where
  \<comment> \<open>\<^verbatim>\<open>(?:[, ][0-9]{3})*\<close>: the text it consumes\<close>
  "digit_groups (s # a # b # c # rest) =
     (if is_sep s \<and> is_digit a \<and> is_digit b \<and> is_digit c
      then s # a # b # c # digit_groups rest else [])"
| "digit_groups rest = []"

fun fraction :: "string \<Rightarrow> string" where
  \<comment> \<open>\<^verbatim>\<open>(?:\.[0-9]{2})?\<close>: the text it consumes\<close>
  "fraction (p # a # b # rest) =
     (if p = CHR ''.'' \<and> is_digit a \<and> is_digit b then [p, a, b] else [])"
| "fraction rest = []"

definition money_number :: "string \<Rightarrow> string" where
  "money_number s =
     (let d = takeWhile is_digit (take 3 s);
          g = digit_groups (drop (length d) s);
          f = fraction (drop (length d + length g) s)
      in d @ g @ f)"

definition money_rx_match :: "string \<Rightarrow> string option" where
  "money_rx_match s =
     (case dropWhile is_space (drop_dollar s) of
        [] \<Rightarrow> None
      | c # cs \<Rightarrow> if is_digit c then Some (money_number (c # cs)) else None)"

definition parse_money :: "string \<Rightarrow> py_error + (nat \<times> nat) option" where
  "parse_money s =
     (case rx_search money_rx_match (remove_char CHR '' '' (remove_char CHR '','' s)) of
        None \<Rightarrow> Inr None
      | Some g \<Rightarrow> (case py_float g of None \<Rightarrow> Inl ValueError | Some v \<Rightarrow> Inr (Some v)))"

subsection \<open>Chunkers\<close>

record pdf =
  pdf_name :: string
  pdf_path :: string
  pdf_size :: nat

text \<open>A fragment record; \<open>frag_page\<close> is \<open>None\<close> when the dictionary has no \<open>page\<close> key.\<close>

record fragment =
  frag_id :: string
  frag_text :: string
  frag_docname :: string
  frag_source :: string
  frag_type :: string
  frag_page :: "nat option"

text \<open>
  The extractors are external. \<open>textract\<close> returns either one string or a list of
  paragraphs; \<open>pdfplumber\<close> yields for each page its tables (rows of optional cell
  texts), \<open>None\<close>, or an exception.
\<close>

datatype extracted = Whole string | Paragraphs "string list"

datatype page_out = PageTables "string option list list list" | PageNone | PageError

definition pch_id :: "string \<Rightarrow> nat \<Rightarrow> string \<Rightarrow> string" where
  "pch_id doc_id i text = make_id ''PCH''
     (PDict [(''doc'', JAtom (AStr doc_id)), (''i'', JAtom (AInt (int i))),
             (''t'', JAtom (AStr (take 300 text)))])"

definition paragraph_chunks :: "pdf \<Rightarrow> string \<Rightarrow> extracted \<Rightarrow> fragment list" where
  "paragraph_chunks pdfpath doc_id chunks =
     map (\<lambda>(i, text).
           \<lparr>frag_id = pch_id doc_id i text, frag_text = text, frag_docname = pdf_name pdfpath,
            frag_source = pdf_path pdfpath, frag_type = ''paragraph'', frag_page = None\<rparr>)
         (enumerate 0 (case chunks of Whole s \<Rightarrow> [s] | Paragraphs ps \<Rightarrow> ps))"

definition row_cells :: "string option list \<Rightarrow> string list" where
  \<comment> \<open>\<open>[(c or "").strip() for c in row]\<close>\<close>
  "row_cells row = map (\<lambda>c. strip (case c of None \<Rightarrow> [] | Some s \<Rightarrow> s)) row"

definition tbl_id :: "string \<Rightarrow> nat \<Rightarrow> nat \<Rightarrow> string list \<Rightarrow> string" where
  "tbl_id doc_id page_index r_i cells = make_id ''TBL''
     (PDict [(''doc'', JAtom (AStr doc_id)), (''p'', JAtom (AInt (int page_index))),
             (''r'', JAtom (AInt (int r_i))), (''c'', JList (map AStr (take 10 cells)))])"

definition row_fragment ::
  "pdf \<Rightarrow> string \<Rightarrow> nat \<Rightarrow> nat \<Rightarrow> string option list \<Rightarrow> fragment option" where
  \<comment> \<open>the body of the loop over the rows; \<open>None\<close> is \<open>continue\<close>\<close>
  "row_fragment pdfpath doc_id page_index r_i row =
     (let cells = row_cells row in
      if \<not> (\<exists>c \<in> set cells. c \<noteq> []) then None
      else Some \<lparr>frag_id = tbl_id doc_id page_index r_i cells, frag_text = join '' | '' cells,
                 frag_docname = pdf_name pdfpath, frag_source = pdf_path pdfpath,
                 frag_type = ''table-row'', frag_page = Some page_index\<rparr>)"

fun table_fragments ::
  "pdf \<Rightarrow> string \<Rightarrow> nat \<Rightarrow> nat \<Rightarrow> string option list list \<Rightarrow> fragment list" where
  \<comment> \<open>the loop over the rows of one table, from row index \<open>r_i\<close> on\<close>
  "table_fragments pdfpath doc_id page_index r_i [] = []"
| "table_fragments pdfpath doc_id page_index r_i (row # rows) =
     (case row_fragment pdfpath doc_id page_index r_i row of None \<Rightarrow> [] | Some f \<Rightarrow> [f]) @
     table_fragments pdfpath doc_id page_index (Suc r_i) rows"

fun page_fragments :: "pdf \<Rightarrow> string \<Rightarrow> nat \<Rightarrow> page_out list \<Rightarrow> fragment list" where
  \<comment> \<open>the loop over the pages, from page number \<open>page_index\<close> on; an exception ends the
      generator, which keeps what it has yielded\<close>
  "page_fragments pdfpath doc_id page_index [] = []"
| "page_fragments pdfpath doc_id page_index (PageError # pages) = []"
| "page_fragments pdfpath doc_id page_index (PageNone # pages) =
     page_fragments pdfpath doc_id (Suc page_index) pages"
| "page_fragments pdfpath doc_id page_index (PageTables tables # pages) =
     concat (map (table_fragments pdfpath doc_id page_index 0) tables) @
     page_fragments pdfpath doc_id (Suc page_index) pages"

definition table_rows :: "pdf \<Rightarrow> string \<Rightarrow> page_out list \<Rightarrow> fragment list" where
  "table_rows pdfpath doc_id pages = page_fragments pdfpath doc_id 1 pages"

subsection \<open>Metadata sniffers\<close>

text \<open>
  The vendor patterns are \<^verbatim>\<open>Vendor\s*[:\-]\s*(.+)\<close> and \<^verbatim>\<open>Client\s*[:\-]\s*(.+)\<close>.
  After the separator, \<^verbatim>\<open>\s*\<close> takes white space greedily and gives it back one
  character at a time while \<^verbatim>\<open>(.+)\<close> finds nothing to match.
\<close>

definition line_plus :: "string \<Rightarrow> string option" where
  \<comment> \<open>\<^verbatim>\<open>(.+)\<close>: at least one character, up to the end of the line\<close>
  "line_plus s = (let g = takeWhile (\<lambda>c. c \<noteq> CHR 0x0A) s in if g = [] then None else Some g)"

fun ws_then_line :: "string \<Rightarrow> string option" where
  \<comment> \<open>\<^verbatim>\<open>\s*(.+)\<close>\<close>
  "ws_then_line [] = None"
| "ws_then_line (c # cs) =
     (if is_space c
      then (case ws_then_line cs of Some g \<Rightarrow> Some g | None \<Rightarrow> line_plus (c # cs))
      else line_plus (c # cs))"

definition vendor_match :: "string \<Rightarrow> string \<Rightarrow> string option" where
  "vendor_match label s =
     (case strip_prefix_ci label s of
        None \<Rightarrow> None
      | Some s1 \<Rightarrow>
          (case dropWhile is_space s1 of
             [] \<Rightarrow> None
           | c # s2 \<Rightarrow> if c = CHR '':'' \<or> c = CHR ''-'' then ws_then_line s2 else None))"

fun sniff_vendor_loop :: "string list \<Rightarrow> string \<Rightarrow> string option" where
  "sniff_vendor_loop [] text = None"
| "sniff_vendor_loop (label # labels) text =
     (case rx_search (vendor_match label) text of
        Some g \<Rightarrow> Some (take 120 (strip g))
      | None \<Rightarrow> sniff_vendor_loop labels text)"

definition sniff_vendor :: "string \<Rightarrow> string option" where
  "sniff_vendor text = sniff_vendor_loop [''Vendor'', ''Client''] text"

text \<open>
  The total pattern is the label followed by \<^verbatim>\<open>.{0,40}\$?\s*([0-9][0-9,\. ]+)\<close>:
  \<^verbatim>\<open>.{0,40}\<close> takes up to 40 characters of the line greedily and gives them back one
  at a time, so the number is looked for from the farthest start back to the label.
\<close>

definition in_number_class :: "char \<Rightarrow> bool" where
  \<comment> \<open>the class \<^verbatim>\<open>[0-9,\. ]\<close>\<close>
  "in_number_class c = (is_digit c \<or> c = CHR '','' \<or> c = CHR ''.'' \<or> c = CHR '' '')"

definition number_tail :: "string \<Rightarrow> string option" where
  \<comment> \<open>\<^verbatim>\<open>\$?\s*([0-9][0-9,\. ]+)\<close>\<close>
  "number_tail s =
     (case dropWhile is_space (drop_dollar s) of
        d # e # rest \<Rightarrow>
          if is_digit d \<and> in_number_class e then Some (d # takeWhile in_number_class (e # rest))
          else None
      | _ \<Rightarrow> None)"

fun window_suffixes :: "string \<Rightarrow> string list" where
  \<comment> \<open>what is left after \<^verbatim>\<open>.\<close> has taken 0, 1, 2, ... characters of the line\<close>
  "window_suffixes [] = [[]]"
| "window_suffixes (c # cs) = (c # cs) # (if c = CHR 0x0A then [] else window_suffixes cs)"

definition total_match :: "string \<Rightarrow> string \<Rightarrow> string option" where
  "total_match label s =
     (case strip_prefix_ci label s of
        None \<Rightarrow> None
      | Some s1 \<Rightarrow> first_some number_tail (rev (take 41 (window_suffixes s1))))"

fun sniff_total_loop :: "string list \<Rightarrow> string \<Rightarrow> (nat \<times> nat) option" where
  \<comment> \<open>a \<open>ValueError\<close> of \<open>float\<close> is caught and the next label is tried\<close>
  "sniff_total_loop [] fulltext = None"
| "sniff_total_loop (label # labels) fulltext =
     (case rx_search (total_match label) fulltext of
        None \<Rightarrow> sniff_total_loop labels fulltext
      | Some g \<Rightarrow>
          (case py_float (remove_char CHR '' '' (remove_char CHR '','' g)) of
             Some v \<Rightarrow> Some v
           | None \<Rightarrow> sniff_total_loop labels fulltext))"

definition sniff_grand_total :: "string \<Rightarrow> (nat \<times> nat) option" where
  "sniff_grand_total fulltext =
     sniff_total_loop [''grand total'', ''contract total'', ''total''] fulltext"

section \<open>The corpus graph\<close>

text \<open>
  A \<open>networkx.DiGraph\<close>: the nodes with their attribute dictionaries, in insertion
  order, and the directed edges with theirs. No function below depends on the order in
  which the edges are listed.
\<close>

record graph =
  nodes :: "(string \<times> attrs) list"
  edges :: "((string \<times> string) \<times> attrs) list"

definition node_attrs :: "graph \<Rightarrow> string \<Rightarrow> attrs" where
  \<comment> \<open>\<open>G.nodes[n]\<close>; every end point of an edge is a node of a \<open>DiGraph\<close>\<close>
  "node_attrs G n = (case map_of (nodes G) n of None \<Rightarrow> [] | Some d \<Rightarrow> d)"

definition in_edges :: "graph \<Rightarrow> string \<Rightarrow> (string \<times> string \<times> attrs) list" where
  "in_edges G n = [(u, v, d). ((u, v), d) \<leftarrow> edges G, v = n]"

definition out_edges :: "graph \<Rightarrow> string \<Rightarrow> (string \<times> string \<times> attrs) list" where
  "out_edges G n = [(u, v, d). ((u, v), d) \<leftarrow> edges G, u = n]"

definition empty_graph :: graph where
  "empty_graph = \<lparr>nodes = [], edges = []\<rparr>"

definition dict_update :: "('k \<times> 'v) list \<Rightarrow> ('k \<times> 'v) list \<Rightarrow> ('k \<times> 'v) list" where
  \<comment> \<open>\<open>d.update(new)\<close>: a known key keeps its place, a new key goes to the end\<close>
  "dict_update d new = foldl (\<lambda>d kv. AList.update (fst kv) (snd kv) d) d new"

definition add_node :: "graph \<Rightarrow> string \<Rightarrow> attrs \<Rightarrow> graph" where
  \<comment> \<open>\<open>G.add_node(n, **attr)\<close>: a known node has its attributes updated\<close>
  "add_node G n attr =
     G\<lparr>nodes := AList.update n (dict_update (node_attrs G n) attr) (nodes G)\<rparr>"

definition touch_node :: "graph \<Rightarrow> string \<Rightarrow> graph" where
  \<comment> \<open>an end point of a new edge becomes a node, without attributes, when it is none yet\<close>
  "touch_node G n = (if n \<in> fst ` set (nodes G) then G else G\<lparr>nodes := nodes G @ [(n, [])]\<rparr>)"

definition add_edge :: "graph \<Rightarrow> string \<Rightarrow> string \<Rightarrow> attrs \<Rightarrow> graph" where
  \<comment> \<open>\<open>G.add_edge(u, v, **attr)\<close>\<close>
  "add_edge G u v attr =
     (let G1 = touch_node (touch_node G u) v;
          old = (case map_of (edges G1) (u, v) of None \<Rightarrow> [] | Some d \<Rightarrow> d)
      in G1\<lparr>edges := AList.update (u, v) (dict_update old attr) (edges G1)\<rparr>)"

definition compose :: "graph \<Rightarrow> graph \<Rightarrow> graph" where
  \<comment> \<open>\<open>nx.compose(G, H)\<close>: a new graph that takes the nodes of \<open>G\<close>, then those of \<open>H\<close>,
      then the edges of \<open>G\<close>, then those of \<open>H\<close>\<close>
  "compose G H =
     (let add_nodes = foldl (\<lambda>R nd. add_node R (fst nd) (snd nd));
          add_edges = foldl (\<lambda>R e. add_edge R (fst (fst e)) (snd (fst e)) (snd e))
      in add_edges (add_edges (add_nodes (add_nodes empty_graph (nodes G)) (nodes H)) (edges G))
           (edges H))"

section \<open>The graph builder\<close>

record line_item =
  li_desc :: string
  li_qty :: "(nat \<times> nat) option"
  li_unit :: "string option"
  li_unit_cost :: "(nat \<times> nat) option"
  li_ext_cost :: "(nat \<times> nat) option"
  li_page :: "nat option"

record docmap =
  dm_doc_id :: string
  dm_docname :: string
  dm_vendor :: "string option"
  dm_grand_total :: "(nat \<times> nat) option"
  dm_items :: "line_item list"

definition page_value :: "nat option \<Rightarrow> aval" where
  \<comment> \<open>\<open>rc.get("page")\<close>\<close>
  "page_value p = (case p of None \<Rightarrow> ANone | Some n \<Rightarrow> AInt (int n))"

definition doc_id_of :: "pdf \<Rightarrow> string" where
  "doc_id_of p = make_id ''DOC''
     (PDict [(''name'', JAtom (AStr (pdf_name p))), (''size'', JAtom (AInt (int (pdf_size p))))])"

definition ent_id_of :: "string \<Rightarrow> string" where
  "ent_id_of vendor = make_id ''ENT''
     (PDict [(''type'', JAtom (AStr ''Vendor'')), (''name'', JAtom (AStr vendor))])"

definition lit_id :: "string \<Rightarrow> nat option \<Rightarrow> string \<Rightarrow> nat \<times> nat \<Rightarrow> string" where
  "lit_id doc_id page desc ext = make_id ''LIT''
     (PDict [(''doc'', JAtom (AStr doc_id)), (''page'', JAtom (page_value page)),
             (''desc'', JAtom (AStr desc)), (''ext'', JAtom (AFloat (fst ext) (snd ext)))])"

definition row_ext_cost :: "string list \<Rightarrow> py_error + (nat \<times> nat) option" where
  \<comment> \<open>\<open>parse_money(parts[-1]) if len(parts) >= 2 else None\<close>\<close>
  "row_ext_cost parts = (if length parts \<ge> 2 then parse_money (last parts) else Inr None)"

definition add_line_item ::
  "string \<Rightarrow> string option \<Rightarrow> fragment \<Rightarrow> string list \<Rightarrow> nat \<times> nat
     \<Rightarrow> graph \<times> line_item list \<Rightarrow> graph \<times> line_item list" where
  \<comment> \<open>the branch \<open>if ext_cost is not None\<close>\<close>
  "add_line_item doc_id ent_id rc parts ext st =
     (let desc = take 200 (join '' | '' (butlast parts));
          li = \<lparr>li_desc = desc, li_qty = None, li_unit = None, li_unit_cost = None,
                li_ext_cost = Some ext, li_page = frag_page rc\<rparr>;
          lid = lit_id doc_id (frag_page rc) desc ext;
          g1 = add_node (fst st) lid
                 [(''label'', AStr ''LineItem''), (''ext_cost'', AFloat (fst ext) (snd ext)),
                  (''page'', page_value (frag_page rc)), (''desc'', AStr desc)];
          g2 = add_edge g1 (frag_id rc) lid [(''rel'', AStr ''HAS_LINEITEM'')];
          g3 = (case ent_id of None \<Rightarrow> g2
                | Some e \<Rightarrow> add_edge g2 lid e [(''rel'', AStr ''ITEM_FOR'')])
      in (g3, snd st @ [li]))"

fun rows_loop ::
  "string \<Rightarrow> string option \<Rightarrow> fragment list \<Rightarrow> graph \<times> line_item list
     \<Rightarrow> py_error + graph \<times> line_item list" where
  "rows_loop doc_id ent_id [] st = Inr st"
| "rows_loop doc_id ent_id (rc # rcs) st =
     (let g1 = add_node (fst st) (frag_id rc)
                 [(''label'', AStr ''Chunk''), (''type'', AStr (frag_type rc)),
                  (''page'', page_value (frag_page rc)), (''docname'', AStr (frag_docname rc))];
          g2 = add_edge g1 doc_id (frag_id rc) [(''rel'', AStr ''HAS_CHUNK'')];
          parts = map strip (split_on CHR ''|'' (frag_text rc))
      in case row_ext_cost parts of
           Inl e \<Rightarrow> Inl e
         | Inr None \<Rightarrow> rows_loop doc_id ent_id rcs (g2, snd st)
         | Inr (Some ext) \<Rightarrow>
             rows_loop doc_id ent_id rcs (add_line_item doc_id ent_id rc parts ext (g2, snd st)))"

fun paragraphs_loop :: "string \<Rightarrow> string option \<Rightarrow> fragment list \<Rightarrow> graph \<Rightarrow> graph" where
  "paragraphs_loop doc_id ent_id [] g = g"
| "paragraphs_loop doc_id ent_id (pc # pcs) g =
     (let g1 = add_node g (frag_id pc)
                 [(''label'', AStr ''Chunk''), (''type'', AStr (frag_type pc)),
                  (''docname'', AStr (frag_docname pc))];
          g2 = add_edge g1 doc_id (frag_id pc) [(''rel'', AStr ''HAS_CHUNK'')];
          g3 = (case ent_id of None \<Rightarrow> g2
                | Some e \<Rightarrow> add_edge g2 (frag_id pc) e [(''rel'', AStr ''MENTIONS'')])
      in paragraphs_loop doc_id ent_id pcs g3)"

definition truthy :: "string option \<Rightarrow> string option" where
  \<comment> \<open>\<open>if vendor:\<close> holds for a non-empty string only\<close>
  "truthy v = (case v of None \<Rightarrow> None | Some s \<Rightarrow> if s = [] then None else Some s)"

definition entity_step :: "string \<Rightarrow> string option \<Rightarrow> graph \<Rightarrow> graph" where
  \<comment> \<open>the optional entity node and its \<open>HAS_ENTITY\<close> edge\<close>
  "entity_step doc_id vendor g =
     (case truthy vendor of
        None \<Rightarrow> g
      | Some v \<Rightarrow>
          add_edge
            (add_node g (ent_id_of v)
               [(''label'', AStr ''Entity''), (''type'', AStr ''Vendor''), (''name'', AStr v)])
            doc_id (ent_id_of v) [(''rel'', AStr ''HAS_ENTITY'')])"

definition build_graph_and_maps ::
  "pdf \<Rightarrow> extracted \<Rightarrow> page_out list \<Rightarrow> py_error + graph \<times> docmap \<times> fragment list" where
  \<comment> \<open>\<open>chunks\<close> and \<open>pages\<close> are what the two extractors return for \<open>pdf\<close>\<close>
  "build_graph_and_maps p chunks pages =
     (let doc_id = doc_id_of p;
          g0 = add_node empty_graph doc_id
                 [(''label'', AStr ''Document''), (''docname'', AStr (pdf_name p)),
                  (''path'', AStr (pdf_path p))];
          pchunks = paragraph_chunks p doc_id chunks;
          fulltext = join [CHR 0x0A] (map frag_text pchunks);
          vendor = sniff_vendor fulltext;
          gt = sniff_grand_total fulltext;
          ent_id = map_option ent_id_of (truthy vendor);
          g1 = entity_step doc_id vendor g0;
          row_chunks = table_rows p doc_id pages
      in case rows_loop doc_id ent_id row_chunks (g1, []) of
           Inl e \<Rightarrow> Inl e
         | Inr (g2, line_items) \<Rightarrow>
             Inr (paragraphs_loop doc_id ent_id pchunks g2,
                  \<lparr>dm_doc_id = doc_id, dm_docname = pdf_name p, dm_vendor = vendor,
                   dm_grand_total = gt, dm_items = line_items\<rparr>,
                  row_chunks @ pchunks))"

subsection \<open>The corpus\<close>

definition corpus_graph :: "graph list \<Rightarrow> graph" where
  \<comment> \<open>\<open>G = nx.compose(G, g)\<close> for the graph of each document in turn\<close>
  "corpus_graph gs = foldl compose empty_graph gs"

definition fragment_dict :: "fragment \<Rightarrow> attrs" where
  "fragment_dict c =
     [(''id'', AStr (frag_id c)), (''text'', AStr (frag_text c)),
      (''docname'', AStr (frag_docname c)), (''source'', AStr (frag_source c)),
      (''type'', AStr (frag_type c))] @
     (case frag_page c of None \<Rightarrow> [] | Some n \<Rightarrow> [(''page'', AInt (int n))])"

definition chunk_map_of :: "fragment list \<Rightarrow> (string \<rightharpoonup> attrs)" where
  \<comment> \<open>\<open>{c["id"]: c for c in all_chunks_for_index}\<close>\<close>
  "chunk_map_of cs = foldl (\<lambda>m c. m(frag_id c \<mapsto> fragment_dict c)) Map.empty cs"

section \<open>Retrieval (graph\_rag.py)\<close>

definition targets :: "graph \<Rightarrow> string \<Rightarrow> string list" where
  "targets G entity_name =
     [n. (n, d) \<leftarrow> nodes G,
         dict_get d ''label'' = AStr ''Entity'' \<and>
         py_lower (py_str (dict_get_default d ''name'' (AStr ''''))) = py_lower entity_name]"

definition ent_cids :: "graph \<Rightarrow> string \<Rightarrow> string list" where
  \<comment> \<open>the body of the loop over \<open>targets\<close>: what one entity node adds to \<open>cids\<close>\<close>
  "ent_cids G ent =
     [u. (u, v, d) \<leftarrow> in_edges G ent, dict_get (node_attrs G u) ''label'' = AStr ''Chunk''] @
     [v. (u, v, d) \<leftarrow> out_edges G ent, dict_get (node_attrs G v) ''label'' = AStr ''Chunk'']"

definition cids_for_entity :: "graph \<Rightarrow> string \<Rightarrow> string set" where
  "cids_for_entity G entity_name = set (concat (map (ent_cids G) (targets G entity_name)))"

type_synonym chunk_map = "string \<rightharpoonup> attrs"

text \<open>
  The semantic index is external: \<open>emb question limit\<close> is the list of the \<open>id\<close> fields of
  the hits of \<open>emb.search(question, limit)\<close>, in rank order.
\<close>

type_synonym index = "string \<Rightarrow> nat \<Rightarrow> string list"

definition scope_skips :: "string set option \<Rightarrow> string \<Rightarrow> bool" where
  \<comment> \<open>\<open>scope_cids and cid not in scope_cids\<close>\<close>
  "scope_skips scope_cids cid =
     (case scope_cids of None \<Rightarrow> False | Some S \<Rightarrow> S \<noteq> {} \<and> cid \<notin> S)"

fun context_loop ::
  "chunk_map \<Rightarrow> string set option \<Rightarrow> nat \<Rightarrow> string list \<Rightarrow> aval list \<Rightarrow> py_error + aval list" where
  "context_loop chunk_map scope_cids k [] texts = Inr texts"
| "context_loop chunk_map scope_cids k (cid # hits) texts =
     (if scope_skips scope_cids cid then context_loop chunk_map scope_cids k hits texts
      else case chunk_map cid of
        None \<Rightarrow> context_loop chunk_map scope_cids k hits texts
      | Some rec \<Rightarrow>
          if rec = [] then context_loop chunk_map scope_cids k hits texts
          else (case map_of rec ''text'' of
            None \<Rightarrow> Inl KeyError
          | Some t \<Rightarrow>
              if length (texts @ [t]) \<ge> k then Inr (texts @ [t])
              else context_loop chunk_map scope_cids k hits (texts @ [t])))"

definition top_context ::
  "index \<Rightarrow> chunk_map \<Rightarrow> string \<Rightarrow> string set option \<Rightarrow> nat \<Rightarrow> py_error + aval list" where
  "top_context emb chunk_map question scope_cids k =
     context_loop chunk_map scope_cids k (emb question 60) []"

record citation =
  cit_id :: string
  cit_docname :: aval
  cit_page :: aval
  cit_type :: aval

definition resolve_refs :: "chunk_map \<Rightarrow> string list \<Rightarrow> citation list" where
  "resolve_refs chunk_map refs =
     map (\<lambda>rid. let rec = (case chunk_map rid of None \<Rightarrow> [] | Some r \<Rightarrow> r) in
            \<lparr>cit_id = rid, cit_docname = dict_get rec ''docname'',
             cit_page = dict_get rec ''page'', cit_type = dict_get rec ''type''\<rparr>) refs"

definition ask_scope :: "graph \<Rightarrow> string list option \<Rightarrow> string set" where
  \<comment> \<open>the set \<open>scope\<close> of \<open>ask\<close> after its loop over \<open>entities\<close>\<close>
  "ask_scope G entities =
     (case entities of None \<Rightarrow> {} | Some es \<Rightarrow> foldl (\<lambda>scope e. scope \<union> cids_for_entity G e) {} es)"

definition ask_context ::
  "graph \<Rightarrow> chunk_map \<Rightarrow> index \<Rightarrow> string \<Rightarrow> string list option \<Rightarrow> py_error + aval list" where
  \<comment> \<open>the list \<open>ctx\<close> of \<open>ask\<close>; \<open>scope or None\<close> is \<open>None\<close> for the empty set\<close>
  "ask_context G chunk_map emb question entities =
     (let scope = ask_scope G entities in
      top_context emb chunk_map question (if scope = {} then None else Some scope) 12)"

text \<open>
  The answerer is external: \<open>rag question ctx\<close> is the triple \<open>(name, answer, refs)\<close> it
  returns. The graph, the fragment map and the index are the loaded artefacts.
\<close>

type_synonym answerer = "string \<Rightarrow> aval list \<Rightarrow> string \<times> string \<times> string list"

definition ask ::
  "answerer \<Rightarrow> graph \<Rightarrow> chunk_map \<Rightarrow> index \<Rightarrow> string \<Rightarrow> string list option
     \<Rightarrow> py_error + (string \<times> citation list)" where
  "ask rag G chunk_map emb question entities =
     (case ask_context G chunk_map emb question entities of
        Inl e \<Rightarrow> Inl e
      | Inr ctx \<Rightarrow> (case rag question ctx of (name, answer, refs) \<Rightarrow>
          Inr (answer, resolve_refs chunk_map refs)))"

section \<open>Notions used to state the properties\<close>





text \<open>
  A hit survives when the scope does not skip it and the fragment map holds a non-empty
  record for it; \<open>text_of\<close> is the \<open>text\<close> entry of its record.
\<close>

definition keeps :: "chunk_map \<Rightarrow> string set option \<Rightarrow> string \<Rightarrow> bool" where
  "keeps cm scope cid = (\<not> scope_skips scope cid \<and> (\<exists>rec. cm cid = Some rec \<and> rec \<noteq> []))"

definition text_of :: "chunk_map \<Rightarrow> string \<Rightarrow> aval option" where
  "text_of cm cid = (case cm cid of None \<Rightarrow> None | Some rec \<Rightarrow> map_of rec ''text'')"

text \<open>A table row whose every cell is absent, empty or white space.\<close>

definition blank_row :: "string option list \<Rightarrow> bool" where
  "blank_row row = (\<forall>c \<in> set row. strip (case c of None \<Rightarrow> [] | Some s \<Rightarrow> s) = [])"



section \<open>Concrete inputs\<close>

text \<open>Chunk a mentions entity X, chunk b mentions entity Y, chunk c mentions nobody.\<close>

definition abc_graph :: graph where
  "abc_graph = \<lparr>nodes =
      [(''PCH:a'', [(''label'', AStr ''Chunk''), (''type'', AStr ''paragraph'')]),
       (''PCH:b'', [(''label'', AStr ''Chunk''), (''type'', AStr ''paragraph'')]),
       (''PCH:c'', [(''label'', AStr ''Chunk''), (''type'', AStr ''paragraph'')]),
       (''ENT:x'', [(''label'', AStr ''Entity''), (''type'', AStr ''Vendor''), (''name'', AStr ''X'')]),
       (''ENT:y'', [(''label'', AStr ''Entity''), (''type'', AStr ''Vendor''), (''name'', AStr ''Y'')])],
     edges =
      [((''PCH:a'', ''ENT:x''), [(''rel'', AStr ''MENTIONS'')]),
       ((''PCH:b'', ''ENT:y''), [(''rel'', AStr ''MENTIONS'')])]\<rparr>"

definition abc_map :: chunk_map where
  "abc_map = map_of
     [(''PCH:a'', [(''id'', AStr ''PCH:a''), (''text'', AStr ''alpha''), (''docname'', AStr ''x.pdf''),
                   (''type'', AStr ''paragraph'')]),
      (''PCH:c'', [(''id'', AStr ''PCH:c''), (''text'', AStr ''gamma''), (''docname'', AStr ''x.pdf''),
                   (''type'', AStr ''paragraph'')])]"

definition abc_emb :: index where
  "abc_emb question limit = take limit [''PCH:c'', ''PCH:a'']"

text \<open>
  Fifteen hits, of which \<open>h02\<close> is out of scope and \<open>h03\<close> is missing from the
  fragment map.
\<close>

definition many_emb :: index where
  "many_emb question limit = take limit
     [''h01'', ''h02'', ''h03'', ''h04'', ''h05'', ''h06'', ''h07'', ''h08'', ''h09'', ''h10'', ''h11'', ''h12'', ''h13'', ''h14'', ''h15'']"

definition many_map :: chunk_map where
  "many_map = map_of
     [(''h01'', [(''id'', AStr ''h01''), (''text'', AStr ''t01''), (''type'', AStr ''paragraph'')]),
      (''h02'', [(''id'', AStr ''h02''), (''text'', AStr ''t02''), (''type'', AStr ''paragraph'')]),
      (''h04'', [(''id'', AStr ''h04''), (''text'', AStr ''t04''), (''type'', AStr ''paragraph'')]),
      (''h05'', [(''id'', AStr ''h05''), (''text'', AStr ''t05''), (''type'', AStr ''paragraph'')]),
      (''h06'', [(''id'', AStr ''h06''), (''text'', AStr ''t06''), (''type'', AStr ''paragraph'')]),
      (''h07'', [(''id'', AStr ''h07''), (''text'', AStr ''t07''), (''type'', AStr ''paragraph'')]),
      (''h08'', [(''id'', AStr ''h08''), (''text'', AStr ''t08''), (''type'', AStr ''paragraph'')]),
      (''h09'', [(''id'', AStr ''h09''), (''text'', AStr ''t09''), (''type'', AStr ''paragraph'')]),
      (''h10'', [(''id'', AStr ''h10''), (''text'', AStr ''t10''), (''type'', AStr ''paragraph'')]),
      (''h11'', [(''id'', AStr ''h11''), (''text'', AStr ''t11''), (''type'', AStr ''paragraph'')]),
      (''h12'', [(''id'', AStr ''h12''), (''text'', AStr ''t12''), (''type'', AStr ''paragraph'')]),
      (''h13'', [(''id'', AStr ''h13''), (''text'', AStr ''t13''), (''type'', AStr ''paragraph'')]),
      (''h14'', [(''id'', AStr ''h14''), (''text'', AStr ''t14''), (''type'', AStr ''paragraph'')]),
      (''h15'', [(''id'', AStr ''h15''), (''text'', AStr ''t15''), (''type'', AStr ''paragraph'')])]"

definition many_scope :: "string set" where
  "many_scope = set
     [''h01'', ''h03'', ''h04'', ''h05'', ''h06'', ''h07'', ''h08'', ''h09'', ''h10'', ''h11'', ''h12'', ''h13'', ''h14'', ''h15'']"

text \<open>
  The \<open>Entity\<close> nodes of a graph, and the graph and the paragraph text of one document.
  The builder has no failing branch (lemma \<open>build_total\<close>), so the second case of
  \<open>doc_graph\<close> never applies.
\<close>

definition entity_nodes :: "graph \<Rightarrow> string list" where
  "entity_nodes G = [n. (n, d) \<leftarrow> nodes G, dict_get d ''label'' = AStr ''Entity'']"

definition doc_graph :: "pdf \<Rightarrow> extracted \<Rightarrow> page_out list \<Rightarrow> graph" where
  "doc_graph p chunks pages =
     (case build_graph_and_maps p chunks pages of Inr (g, dm, cs) \<Rightarrow> g | Inl e \<Rightarrow> empty_graph)"

definition fulltext_of :: "extracted \<Rightarrow> string" where
  "fulltext_of chunks = join [CHR 0x0A] (case chunks of Whole s \<Rightarrow> [s] | Paragraphs ps \<Rightarrow> ps)"

text \<open>
  The invariant of the graphs that the builder and \<open>compose\<close> produce: node IDs and
  attribute keys are unique, a node is labelled \<open>Entity\<close> exactly when its ID has the
  prefix \<open>ENT:\<close>, and the end points of every edge are nodes.
\<close>

definition is_ent_id :: "string \<Rightarrow> bool" where
  "is_ent_id n = (take 4 n = ''ENT:'')"

definition node_ids :: "graph \<Rightarrow> string set" where
  "node_ids G = fst ` set (nodes G)"

definition graph_inv :: "graph \<Rightarrow> bool" where
  "graph_inv G =
     (distinct (map fst (nodes G)) \<and>
      (\<forall>nd \<in> set (nodes G). distinct (map fst (snd nd)) \<and>
         (dict_get (snd nd) ''label'' = AStr ''Entity'' \<longleftrightarrow> is_ent_id (fst nd))) \<and>
      (\<forall>e \<in> set (edges G). fst (fst e) \<in> node_ids G \<and> snd (fst e) \<in> node_ids G))"

definition ent_keys :: "graph \<Rightarrow> string list" where
  "ent_keys G = filter is_ent_id (map fst (nodes G))"

definition tracked :: "graph \<Rightarrow> string list \<Rightarrow> bool" where
  "tracked G E = (graph_inv G \<and> ent_keys G = E)"

text \<open>The two loops of \<open>compose\<close>.\<close>

abbreviation add_nodes :: "graph \<Rightarrow> (string \<times> attrs) list \<Rightarrow> graph" where
  "add_nodes \<equiv> foldl (\<lambda>R nd. add_node R (fst nd) (snd nd))"

abbreviation add_edges :: "graph \<Rightarrow> ((string \<times> string) \<times> attrs) list \<Rightarrow> graph" where
  "add_edges \<equiv> foldl (\<lambda>R e. add_edge R (fst (fst e)) (snd (fst e)) (snd e))"

text \<open>Two paragraph texts that differ only after their first 300 characters.\<close>

definition long_a :: string where
  "long_a = replicate 300 (CHR ''a'') @ ''x''"

definition long_b :: string where
  "long_b = replicate 300 (CHR ''a'') @ ''y''"

text \<open>Two documents.\<close>

definition pdf_a :: pdf where
  "pdf_a = \<lparr>pdf_name = ''a.pdf'', pdf_path = ''data/pdfs/a.pdf'', pdf_size = 1000\<rparr>"

definition pdf_b :: pdf where
  "pdf_b = \<lparr>pdf_name = ''b.pdf'', pdf_path = ''data/pdfs/b.pdf'', pdf_size = 2000\<rparr>"

text \<open>A blank table row and a row with a costed item.\<close>

definition blank_cells :: "string option list" where
  "blank_cells = [None, Some [], Some ''  '', Some [CHR 0x09, CHR 0x0A]]"

definition item_cells :: "string option list" where
  "item_cells = [Some ''Widget'', Some ''2'', Some ''$10.00'']"



text \<open>
  The paragraphs of three documents: the first and the third name the vendor \<open>ACME\<close>, the
  second names it \<open>acme\<close>.
\<close>

definition paras_upper :: extracted where
  "paras_upper = Paragraphs
     [''Vendor: ACME'' @ [CHR 0x0A] @
      ''This estimate covers the supply and installation of roofing materials for the site.'']"

definition paras_lower :: extracted where
  "paras_lower = Paragraphs
     [''Vendor: acme'' @ [CHR 0x0A] @
      ''Second estimate, for the interior works and the finishing of the same building.'']"

definition paras_again :: extracted where
  "paras_again = Paragraphs
     [''Revised estimate for the roofing works, replacing the one sent in the spring.'',
      ''VENDOR - ACME'' @ [CHR 0x0A] @
      ''All prices are valid for thirty days from the date of this document, net of tax.'']"



text \<open>Payloads for the identifiers.\<close>

definition row_payload :: payload where
  "row_payload = PDict [(''doc'', JAtom (AStr ''DOC:abc'')), (''p'', JAtom (AInt 1)),
     (''r'', JAtom (AInt 0)), (''c'', JList [AStr ''Widget'', AStr ''2'', AStr ''$10.00''])]"

definition euro_items :: "(ustring \<times> ujson) list" where
  \<comment> \<open>\<open>{"doc": "DOC:\<dots>", "t": "Prix: 10 \<dots>", "i": 0}\<close> with e acute (233) after the colon,
      the euro sign (8364) and a line feed at the end of the text\<close>
  "euro_items = [(points ''doc'', UAtom (UStr (points ''DOC:'' @ [233]))),
     (points ''t'', UAtom (UStr (points ''Prix: 10 '' @ [8364, 10]))),
     (points ''i'', UAtom (UInt 0))]"

definition euro_items_rev :: "(ustring \<times> ujson) list" where
  "euro_items_rev = [(points ''i'', UAtom (UInt 0)),
     (points ''t'', UAtom (UStr (points ''Prix: 10 '' @ [8364, 10]))),
     (points ''doc'', UAtom (UStr (points ''DOC:'' @ [233])))]"

definition emoji_payload :: upayload where
  \<comment> \<open>h, e acute, a CJK character and an emoji: one to four bytes of UTF-8\<close>
  "emoji_payload = UPStr [104, 233, 20013, 128512]"

definition long_payload :: "nat \<Rightarrow> upayload" where
  \<comment> \<open>\<open>{"z": "a\<dots>a?"}\<close> with \<open>n\<close> letters and then a lone surrogate, which is character
      \<open>7 + n\<close> of the JSON text\<close>
  "long_payload n = UPDict [([122], UAtom (UStr (replicate n 97 @ [55296])))]"

section \<open>Properties of the identifiers\<close>

subsection \<open>The shape of an identifier\<close>

lemma length_put4 [simp]: "length (put4 v l q) = length v"
  by (cases l; cases q) auto

lemma length_blake2s_mix [simp]: "length (blake2s_mix v l x y) = length v"
  by (cases l) auto

lemma length_blake2s_round [simp]: "length (blake2s_round m lanes v s) = length v"
  by (induction m lanes v s rule: blake2s_round.induct) auto

lemma length_blake2s_rounds [simp]: "length (blake2s_rounds m v ss) = length v"
  by (induction ss arbitrary: v) auto

lemma length_blake2s_compress: "length h = 8 \<Longrightarrow> length (blake2s_compress h b t f) = 8"
  by (simp add: blake2s_compress_def blake2s_finish_def blake2s_start_def)

lemma length_blake2s_blocks: "length h = 8 \<Longrightarrow> length (blake2s_blocks h bs t) = 8"
proof (induction h bs t rule: blake2s_blocks.induct)
  case (1 h bs t)
  then show ?case
    by (subst blake2s_blocks.simps) (simp add: length_blake2s_compress)
qed

lemma length_concat_word_bytes: "length (concat (map word_bytes ws)) = 4 * length ws"
  by (induction ws) auto

lemma word_bytes_small: "b \<in> set (concat (map word_bytes ws)) \<Longrightarrow> b < 256"
  by (induction ws) auto

lemma length_blake2s: "length (blake2s 8 bs) = 8"
  by (simp add: blake2s_def length_concat_word_bytes length_blake2s_blocks blake2s_iv_def)

lemma blake2s_bytes: "b \<in> set (blake2s n bs) \<Longrightarrow> b < 256"
  unfolding blake2s_def by (meson in_set_takeD word_bytes_small)

lemma length_hexdigest: "length (hexdigest bs) = 2 * length bs"
  by (induction bs) (auto simp: hexdigest_def)

lemma hex_char_mem: "d < 16 \<Longrightarrow> hex_char d \<in> set hex_digits"
  unfolding hex_char_def by (rule nth_mem) (simp add: hex_digits_def)

lemma hexdigest_chars:
  "\<forall>b \<in> set bs. b < 256 \<Longrightarrow> set (hexdigest bs) \<subseteq> set hex_digits"
proof (induction bs)
  case Nil
  then show ?case by (simp add: hexdigest_def)
next
  case (Cons b bs)
  then have "b div 16 < 16" "b mod 16 < 16" by auto
  then have "hex_char (b div 16) \<in> set hex_digits" "hex_char (b mod 16) \<in> set hex_digits"
    by (auto intro: hex_char_mem)
  with Cons show ?case by (simp add: hexdigest_def)
qed

lemma make_id_shape:
  "\<exists>h. make_id kind p = kind @ '':'' @ h \<and> length h = 16 \<and> set h \<subseteq> set hex_digits"
proof -
  have "length (hexdigest (blake2s 8 (utf8 (canonical p)))) = 16"
    by (simp add: length_hexdigest length_blake2s)
  moreover have "set (hexdigest (blake2s 8 (utf8 (canonical p)))) \<subseteq> set hex_digits"
    using hexdigest_chars [of "blake2s 8 (utf8 (canonical p))"] blake2s_bytes by blast
  ultimately show ?thesis
    unfolding make_id_def by blast
qed

lemma json_dumps_order:
  assumes "distinct (map fst d)" and "mset d' = mset d"
  shows "json_dumps d' = json_dumps d"
proof -
  have "set d' = set d" using assms(2) by (rule mset_eq_setD)
  moreover have "inj_on fst (set d)" using assms(1) by (simp add: distinct_map)
  ultimately have inj: "inj_on fst (set d')" by simp
  have "sort_key fst d' = sort_key fst d"
    by (rule sort_key_inj_key_eq) (use assms inj in simp_all)
  then show ?thesis by (simp add: json_dumps_def)
qed

text \<open>Evaluation of the hash, for concrete identifiers.\<close>

lemmas blake2s_eval = blake2s_def blake2s_blocks.simps blake2s_compress_def blake2s_start_def
  blake2s_finish_def blake2s_iv_def blake2s_sigma_def blake2s_lanes_def zero_block_def hexdigest_def
  hex_char_def hex_digits_def blake2s_g_def add32_def rotr32_def

lemma bytes_acme_upper:
  "utf8 (canonical (PDict [(''type'', JAtom (AStr ''Vendor'')), (''name'', JAtom (AStr ''ACME''))])) =
   [123, 34, 110, 97, 109, 101, 34, 58, 32, 34, 65, 67, 77, 69, 34, 44, 32, 34, 116, 121, 112,
    101, 34, 58, 32, 34, 86, 101, 110, 100, 111, 114, 34, 125]"
  by code_simp

lemma hash_acme_upper:
  "hexdigest (blake2s 8
     [123, 34, 110, 97, 109, 101, 34, 58, 32, 34, 65, 67, 77, 69, 34, 44, 32, 34, 116, 121, 112,
      101, 34, 58, 32, 34, 86, 101, 110, 100, 111, 114, 34, 125]) = ''7926b8f32ca03e02''"
  by (simp add: blake2s_eval)

lemma ent_id_acme_upper: "ent_id_of ''ACME'' = ''ENT:7926b8f32ca03e02''"
  by (simp add: ent_id_of_def make_id_def bytes_acme_upper hash_acme_upper)

subsection \<open>Strings of code points\<close>


lemma points_Nil [simp]: "points [] = []"
  by (simp add: points_def)

lemma points_Cons [simp]: "points (c # s) = of_char c # points s"
  by (simp add: points_def)

lemma points_append [simp]: "points (a @ b) = points a @ points b"
  by (simp add: points_def)

lemma points_concat: "points (concat xs) = concat (map points xs)"
  by (induction xs) auto

lemma points_take: "points (take n s) = take n (points s)"
  by (simp add: points_def take_map)

lemma points_small: "n \<in> set (points s) \<Longrightarrow> n < 256"
  by (auto simp: points_def)

lemma points_join: "points (join sep xs) = join_points (points sep) (map points xs)"
  by (induction sep xs rule: join.induct) auto

lemma json_escape_point_of_char: "json_escape_point (of_char c) = points (json_escape c)"
  by (simp add: json_escape_point_def)

lemma json_string_points_points: "json_string_points (points s) = points (json_string s)"
proof -
  have "concat (map json_escape_point (points s)) = points (concat (map json_escape s))"
    by (induction s) (auto simp: json_escape_point_of_char)
  then show ?thesis
    by (simp add: json_string_points_def json_string_def)
qed

lemma json_atom_points_atom: "json_atom_points (atom_points a) = points (json_atom a)"
  by (cases a) (auto simp: json_string_points_points)

lemma json_value_points_jval: "json_value_points (jval_points v) = points (json_value v)"
  by (cases v) (auto simp: json_atom_points_atom points_join comp_def)

lemma json_item_points_item: "json_item_points (item_points kv) = points (json_item kv)"
  by (simp add: json_item_points_def item_points_def json_item_def json_string_points_points
      json_value_points_jval)

lemma of_char_less_iff: "(of_char a :: nat) < of_char b \<longleftrightarrow> a < b"
  by (simp add: less_char_def)

lemma points_less_iff: "points a < points b \<longleftrightarrow> a < b"
proof (induction a arbitrary: b)
  case Nil
  then show ?case by (cases b) auto
next
  case (Cons x a)
  then show ?case by (cases b) (auto simp: of_char_less_iff)
qed

lemma points_eq_iff: "points a = points b \<longleftrightarrow> a = b"
  by (simp add: points_def inj_map_eq_map inj_of_char)

lemma points_le_iff: "points a \<le> points b \<longleftrightarrow> a \<le> b"
  by (simp add: le_less points_less_iff points_eq_iff)

lemma insort_item_points:
  "insort_key fst (item_points x) (map item_points xs) = map item_points (insort_key fst x xs)"
  by (induction xs) (auto simp: item_points_def points_le_iff)

lemma sort_item_points: "sort_key fst (map item_points d) = map item_points (sort_key fst d)"
  by (induction d) (auto simp: insort_item_points)

lemma json_dumps_points_items: "json_dumps_points (map item_points d) = points (json_dumps d)"
  by (simp add: json_dumps_points_def json_dumps_def sort_item_points points_join comp_def
      json_item_points_item)

lemma utf8_point_of_char:
  "utf8_point (of_char c) =
     (let n = (of_char c :: nat) in if n < 128 then [n] else [192 + n div 64, 128 + n mod 64])"
proof -
  have "(of_char c :: nat) < 2048"
    using nat_of_char_less_256 [of c] by linarith
  then show ?thesis by (simp add: utf8_point_def Let_def)
qed

lemma encode_points: "encode (points s) = Inr (utf8 s)"
proof -
  have "\<not> (\<exists>n \<in> set (points s). is_surrogate n)"
    using points_small [of _ s] by (fastforce simp: is_surrogate_def)
  moreover have "concat (map utf8_point (points s)) = utf8 s"
    by (induction s) (auto simp: utf8_def utf8_point_of_char)
  ultimately show ?thesis by (simp add: encode_def)
qed

lemma canonical_points_payload: "canonical_points (payload_points p) = points (canonical p)"
  by (cases p) (auto simp: canonical_points_def canonical_def json_dumps_points_items points_take)

lemma make_id_unicode_points:
  "make_id_unicode (points kind) (payload_points p) = Inr (points (make_id kind p))"
  by (simp add: make_id_unicode_def canonical_points_payload encode_points make_id_def)

lemma json_dumps_points_order:
  assumes "distinct (map fst d)" and "mset d' = mset d"
  shows "json_dumps_points d' = json_dumps_points d"
proof -
  have "set d' = set d" using assms(2) by (rule mset_eq_setD)
  moreover have "inj_on fst (set d)" using assms(1) by (simp add: distinct_map)
  ultimately have inj: "inj_on fst (set d')" by simp
  have "sort_key fst d' = sort_key fst d"
    by (rule sort_key_inj_key_eq) (use assms inj in simp_all)
  then show ?thesis by (simp add: json_dumps_points_def)
qed

lemma make_id_unicode_shape:
  assumes "make_id_unicode kind p = Inr i"
  shows "\<exists>h. i = kind @ [58] @ points h \<and> length h = 16 \<and> set h \<subseteq> set hex_digits"
proof -
  obtain bs where bs: "encode (canonical_points p) = Inr bs"
    and i: "i = kind @ [58] @ points (hexdigest (blake2s 8 bs))"
    using assms by (auto simp: make_id_unicode_def split: sum.splits)
  have "length (hexdigest (blake2s 8 bs)) = 16"
    by (simp add: length_hexdigest length_blake2s)
  moreover have "set (hexdigest (blake2s 8 bs)) \<subseteq> set hex_digits"
    using hexdigest_chars [of "blake2s 8 bs"] blake2s_bytes by blast
  ultimately show ?thesis using i by blast
qed


text \<open>Concrete identifiers.\<close>

lemma bytes_row:
  "utf8 (canonical row_payload) =
   [123, 34, 99, 34, 58, 32, 91, 34, 87, 105, 100, 103, 101, 116, 34, 44, 32, 34, 50, 34, 44,
    32, 34, 36, 49, 48, 46, 48, 48, 34, 93, 44, 32, 34, 100, 111, 99, 34, 58, 32, 34, 68, 79,
    67, 58, 97, 98, 99, 34, 44, 32, 34, 112, 34, 58, 32, 49, 44, 32, 34, 114, 34, 58, 32, 48,
    125]"
  by code_simp

lemma hash_row:
  "hexdigest (blake2s 8
     [123, 34, 99, 34, 58, 32, 91, 34, 87, 105, 100, 103, 101, 116, 34, 44, 32, 34, 50, 34, 44,
      32, 34, 36, 49, 48, 46, 48, 48, 34, 93, 44, 32, 34, 100, 111, 99, 34, 58, 32, 34, 68, 79,
      67, 58, 97, 98, 99, 34, 44, 32, 34, 112, 34, 58, 32, 49, 44, 32, 34, 114, 34, 58, 32, 48,
      125]) = ''183af25261ab87a6''"
  by (simp add: blake2s_eval)

lemma id_row: "make_id ''TBL'' row_payload = ''TBL:183af25261ab87a6''"
  by (simp add: make_id_def bytes_row hash_row)

lemma text_euro:
  "canonical_points (UPDict euro_items) =
   [123, 34, 100, 111, 99, 34, 58, 32, 34, 68, 79, 67, 58, 233, 34, 44, 32, 34, 105, 34, 58,
    32, 48, 44, 32, 34, 116, 34, 58, 32, 34, 80, 114, 105, 120, 58, 32, 49, 48, 32, 8364, 92,
    110, 34, 125]"
  by code_simp

lemma bytes_euro:
  "encode
   [123, 34, 100, 111, 99, 34, 58, 32, 34, 68, 79, 67, 58, 233, 34, 44, 32, 34, 105, 34, 58,
    32, 48, 44, 32, 34, 116, 34, 58, 32, 34, 80, 114, 105, 120, 58, 32, 49, 48, 32, 8364, 92,
    110, 34, 125] =
   Inr [123, 34, 100, 111, 99, 34, 58, 32, 34, 68, 79, 67, 58, 195, 169, 34, 44, 32, 34, 105,
    34, 58, 32, 48, 44, 32, 34, 116, 34, 58, 32, 34, 80, 114, 105, 120, 58, 32, 49, 48, 32,
    226, 130, 172, 92, 110, 34, 125]"
  by (simp add: encode_def is_surrogate_def utf8_point_def)

lemma hash_euro:
  "hexdigest (blake2s 8
     [123, 34, 100, 111, 99, 34, 58, 32, 34, 68, 79, 67, 58, 195, 169, 34, 44, 32, 34, 105,
      34, 58, 32, 48, 44, 32, 34, 116, 34, 58, 32, 34, 80, 114, 105, 120, 58, 32, 49, 48, 32,
      226, 130, 172, 92, 110, 34, 125]) = ''682afefe915e26fd''"
  by (simp add: blake2s_eval)

lemma id_euro:
  "make_id_unicode (points ''PCH'') (UPDict euro_items) = Inr (points ''PCH:682afefe915e26fd'')"
  by (simp add: make_id_unicode_def text_euro bytes_euro hash_euro)

lemma bytes_emoji:
  "encode [104, 233, 20013, 128512] = Inr [104, 195, 169, 228, 184, 173, 240, 159, 152, 128]"
  by (simp add: encode_def is_surrogate_def utf8_point_def)

lemma hash_emoji:
  "hexdigest (blake2s 8 [104, 195, 169, 228, 184, 173, 240, 159, 152, 128]) = ''6ffe18a743440883''"
  by (simp add: blake2s_eval)

lemma id_emoji:
  "make_id_unicode (points ''PCH'') emoji_payload = Inr (points ''PCH:6ffe18a743440883'')"
  by (simp add: make_id_unicode_def emoji_payload_def canonical_points_def bytes_emoji hash_emoji)

text \<open>The cut comes before the encoding: a surrogate behind it does no harm.\<close>

lemma concat_replicate_single: "concat (replicate n [a]) = replicate n a"
  by (induction n) auto

lemma json_escape_point_a: "json_escape_point 97 = [97]"
  by code_simp

lemma json_escape_point_z: "json_escape_point 122 = [122]"
  by code_simp

lemma json_escape_point_surrogate: "json_escape_point 55296 = [55296]"
  by (simp add: json_escape_point_def)

lemma text_long:
  "canonical_points (long_payload n) =
   take 2048 ([123, 34, 122, 34, 58, 32, 34] @ replicate n 97 @ [55296, 34, 125])"
  by (simp add: canonical_points_def long_payload_def json_dumps_points_def json_item_points_def
      json_string_points_def json_escape_point_a json_escape_point_z json_escape_point_surrogate
      concat_replicate_single)

lemma text_long_2040:
  "canonical_points (long_payload 2040) = [123, 34, 122, 34, 58, 32, 34] @ replicate 2040 97 @ [55296]"
  by (simp add: text_long)

lemma text_long_2041:
  "canonical_points (long_payload 2041) = [123, 34, 122, 34, 58, 32, 34] @ replicate 2041 97"
  by (simp add: text_long)

lemma text_long_2042:
  "canonical_points (long_payload 2042) = [123, 34, 122, 34, 58, 32, 34] @ replicate 2041 97"
  by (simp add: text_long)

lemma id_long_2040: "make_id_unicode [88] (long_payload 2040) = Inl UnicodeEncodeError"
  by (simp add: make_id_unicode_def encode_def text_long_2040 is_surrogate_def)

lemma id_long_2041: "make_id_unicode [88] (long_payload 2041) \<noteq> Inl UnicodeEncodeError"
  by (simp add: make_id_unicode_def encode_def text_long_2041 is_surrogate_def)

lemma id_long_2042: "make_id_unicode [88] (long_payload 2042) = make_id_unicode [88] (long_payload 2041)"
  by (simp add: make_id_unicode_def text_long_2041 text_long_2042)

lemma make_id_unicode_cases:
  "make_id_unicode kind p =
     (if \<exists>n \<in> set (canonical_points p). is_surrogate n then Inl UnicodeEncodeError
      else Inr (kind @ [58] @
        points (hexdigest (blake2s 8 (concat (map utf8_point (canonical_points p)))))))"
  by (simp add: make_id_unicode_def encode_def)

lemma make_id_unicode_order:
  "distinct (map fst d) \<and> mset d' = mset d \<longrightarrow>
     make_id_unicode kind (UPDict d') = make_id_unicode kind (UPDict d)"
  using json_dumps_points_order [of d d']
  by (auto simp: make_id_unicode_def canonical_points_def)

lemma make_id_unicode_digits:
  "make_id_unicode kind p = Inr i \<longrightarrow>
     (\<exists>h. i = kind @ [58] @ points h \<and> length h = 16 \<and> set h \<subseteq> set ''0123456789abcdef'')"
  using make_id_unicode_shape [of kind p i] unfolding hex_digits_def by blast

text \<open>
  C6: \<open>make_id\<close> is a function of the kind and the payload, so two runs over the same
  input give the same result. The text that is hashed is the payload itself when it is
  a string, and the JSON text of a dictionary with its keys sorted, cut to 2048
  characters. The result is the kind, a colon and the 16 lower-case hexadecimal digits
  of the 8-byte BLAKE2s digest of the UTF-8 bytes of that text, so the insertion order
  of the keys does not matter. \<open>encode\<close> raises \<open>UnicodeEncodeError\<close> exactly when that
  text holds a surrogate code point; a surrogate behind the cut does no harm, and two
  dictionaries that differ behind the cut only get the same ID. The digests below are
  those of \<open>hashlib.blake2s\<close>.
\<close>

theorem make_id_digest:
  "make_id_unicode kind p =
     (if \<exists>n \<in> set (canonical_points p). is_surrogate n then Inl UnicodeEncodeError
      else Inr (kind @ [58] @
        points (hexdigest (blake2s 8 (concat (map utf8_point (canonical_points p))))))) \<and>
   (make_id_unicode kind p = Inr i \<longrightarrow>
     (\<exists>h. i = kind @ [58] @ points h \<and> length h = 16 \<and> set h \<subseteq> set ''0123456789abcdef'')) \<and>
   (distinct (map fst d) \<and> mset d' = mset d \<longrightarrow>
     make_id_unicode kind (UPDict d') = make_id_unicode kind (UPDict d)) \<and>
   canonical_points (UPStr s) = s \<and>
   canonical_points (UPDict d) = take 2048 (json_dumps_points d) \<and>
   make_id_unicode (points k) (payload_points q) = Inr (points (make_id k q)) \<and>
   make_id ''ENT'' (PDict [(''type'', JAtom (AStr ''Vendor'')), (''name'', JAtom (AStr ''ACME''))]) =
     ''ENT:7926b8f32ca03e02'' \<and>
   make_id ''TBL'' row_payload = ''TBL:183af25261ab87a6'' \<and>
   canonical_points (UPDict euro_items) =
     [123, 34, 100, 111, 99, 34, 58, 32, 34, 68, 79, 67, 58, 233, 34, 44, 32, 34, 105, 34, 58,
      32, 48, 44, 32, 34, 116, 34, 58, 32, 34, 80, 114, 105, 120, 58, 32, 49, 48, 32, 8364, 92,
      110, 34, 125] \<and>
   make_id_unicode (points ''PCH'') (UPDict euro_items) = Inr (points ''PCH:682afefe915e26fd'') \<and>
   make_id_unicode (points ''PCH'') emoji_payload = Inr (points ''PCH:6ffe18a743440883'') \<and>
   make_id_unicode [88] (long_payload 2040) = Inl UnicodeEncodeError \<and>
   make_id_unicode [88] (long_payload 2041) \<noteq> Inl UnicodeEncodeError \<and>
   make_id_unicode [88] (long_payload 2042) = make_id_unicode [88] (long_payload 2041)"
proof -
  have str: "canonical_points (UPStr s) = s"
    by (simp add: canonical_points_def)
  have dict: "canonical_points (UPDict d) = take 2048 (json_dumps_points d)"
    by (simp add: canonical_points_def)
  have acme: "make_id ''ENT'' (PDict [(''type'', JAtom (AStr ''Vendor'')),
      (''name'', JAtom (AStr ''ACME''))]) = ''ENT:7926b8f32ca03e02''"
    using ent_id_acme_upper by (simp only: ent_id_of_def)
  show ?thesis
    by (intro conjI; (rule make_id_unicode_cases make_id_unicode_digits make_id_unicode_order
        str dict make_id_unicode_points acme id_row text_euro id_euro id_emoji id_long_2040
        id_long_2041 id_long_2042))
qed

theorem make_id_digest_witness:
  "make_id_unicode (points ''PCH'') emoji_payload =
     Inr (points ''PCH'' @ [58] @
       points (hexdigest (blake2s 8 [104, 195, 169, 228, 184, 173, 240, 159, 152, 128]))) \<and>
   make_id_unicode (points ''PCH'') (UPStr [104, 57343]) = Inl UnicodeEncodeError \<and>
   length (points ''PCH:6ffe18a743440883'') = length (points ''PCH'') + 17 \<and>
   distinct (map fst euro_items) \<and> mset euro_items_rev = mset euro_items \<and>
   make_id_unicode (points ''PCH'') (UPDict euro_items_rev) =
     Inr (points ''PCH:682afefe915e26fd'')"
proof -
  note at_emoji = make_id_digest [where kind = "points ''PCH''" and p = emoji_payload
      and i = "points ''PCH:6ffe18a743440883''" and d = euro_items and d' = euro_items_rev
      and s = "[]" and k = "[]" and q = "PStr []"]
  note at_surrogate = make_id_digest [where kind = "points ''PCH''" and p = "UPStr [104, 57343]"
      and i = "[]" and d = "[]" and d' = "[]" and s = "[]" and k = "[]" and q = "PStr []"]
  have clean: "\<not> (\<exists>n \<in> set (canonical_points emoji_payload). is_surrogate n)"
    by (simp add: emoji_payload_def canonical_points_def is_surrogate_def)
  have bytes: "concat (map utf8_point (canonical_points emoji_payload)) =
      [104, 195, 169, 228, 184, 173, 240, 159, 152, 128]"
    by (simp add: emoji_payload_def canonical_points_def utf8_point_def)
  have a: "make_id_unicode (points ''PCH'') emoji_payload =
     Inr (points ''PCH'' @ [58] @
       points (hexdigest (blake2s 8 [104, 195, 169, 228, 184, 173, 240, 159, 152, 128])))"
    using trans [OF at_emoji [THEN conjunct1] if_not_P [OF clean]] by (simp only: bytes)
  have dirty: "\<exists>n \<in> set (canonical_points (UPStr [104, 57343])). is_surrogate n"
    by (simp add: canonical_points_def is_surrogate_def)
  have b: "make_id_unicode (points ''PCH'') (UPStr [104, 57343]) = Inl UnicodeEncodeError"
    by (rule trans [OF at_surrogate [THEN conjunct1] if_P [OF dirty]])
  from at_emoji [THEN conjunct2, THEN conjunct1, THEN mp, OF id_emoji]
  obtain h where h: "points ''PCH:6ffe18a743440883'' = points ''PCH'' @ [58] @ points h"
    "length h = 16"
    by blast
  have "length (points ''PCH:6ffe18a743440883'') = length (points ''PCH'' @ [58] @ points h)"
    by (simp only: h(1))
  then have c: "length (points ''PCH:6ffe18a743440883'') = length (points ''PCH'') + 17"
    using h(2) by (simp add: points_def)
  have d: "distinct (map fst euro_items)"
    by (simp add: euro_items_def)
  have m: "mset euro_items_rev = mset euro_items"
    by (simp add: euro_items_def euro_items_rev_def)
  have "make_id_unicode (points ''PCH'') (UPDict euro_items_rev) =
      make_id_unicode (points ''PCH'') (UPDict euro_items)"
    by (rule at_emoji [THEN conjunct2, THEN conjunct2, THEN conjunct1, THEN mp, OF conjI [OF d m]])
  then have e: "make_id_unicode (points ''PCH'') (UPDict euro_items_rev) =
      Inr (points ''PCH:682afefe915e26fd'')"
    by (simp only: id_euro)
  from a b c d m e show ?thesis
    by (intro conjI)
qed

text \<open>
  C6, as the specification has it, fails: \<open>make_id\<close> is not total. On a string payload
  that is a lone surrogate, \<open>payload.encode()\<close> raises \<open>UnicodeEncodeError\<close> and no ID
  is returned.
\<close>

theorem make_id_total_counterexample:
  "make_id_unicode (points ''PCH'') (UPStr [55296]) = Inl UnicodeEncodeError"
  by (simp add: make_id_unicode_def encode_def canonical_points_def is_surrogate_def)

subsection \<open>Paragraph fragments\<close>

lemma paragraph_chunks_nth:
  "i < length ps \<Longrightarrow> paragraph_chunks p doc_id (Paragraphs ps) ! i =
     \<lparr>frag_id = pch_id doc_id i (ps ! i), frag_text = ps ! i, frag_docname = pdf_name p,
      frag_source = pdf_path p, frag_type = ''paragraph'', frag_page = None\<rparr>"
  by (simp add: paragraph_chunks_def nth_enumerate_eq)

lemma pch_id_prefix: "take 300 s = take 300 t \<Longrightarrow> pch_id doc_id i s = pch_id doc_id i t"
  by (simp add: pch_id_def)

text \<open>
  C10: the ID of a paragraph fragment depends only on the document ID, the position of
  the paragraph and the first 300 characters of its text. Two texts that agree on their
  first 300 characters, at the same position of the same document, get the same chunk
  ID, and the fragment map keeps one record for the two.
\<close>

theorem paragraph_id_prefix:
  assumes "i < length ps" and "i < length qs" and "take 300 (ps ! i) = take 300 (qs ! i)"
  shows "frag_id (paragraph_chunks p doc_id (Paragraphs ps) ! i) =
         frag_id (paragraph_chunks p doc_id (Paragraphs qs) ! i) \<and>
         chunk_map_of [paragraph_chunks p doc_id (Paragraphs ps) ! i,
                       paragraph_chunks p doc_id (Paragraphs qs) ! i] =
         [pch_id doc_id i (ps ! i) \<mapsto>
            fragment_dict (paragraph_chunks p doc_id (Paragraphs qs) ! i)]"
proof -
  have same: "pch_id doc_id i (ps ! i) = pch_id doc_id i (qs ! i)"
    using assms(3) by (rule pch_id_prefix)
  show ?thesis
    by (simp add: paragraph_chunks_nth assms(1,2) chunk_map_of_def same)
qed

theorem paragraph_id_prefix_witness:
  "long_a \<noteq> long_b \<and> take 300 long_a = take 300 long_b \<and>
   frag_id (paragraph_chunks pdf_a (doc_id_of pdf_a) (Paragraphs [long_a]) ! 0) =
   frag_id (paragraph_chunks pdf_a (doc_id_of pdf_a) (Paragraphs [long_b]) ! 0)"
proof -
  have same: "take 300 ([long_a] ! 0) = take 300 ([long_b] ! 0)"
    by (simp add: long_a_def long_b_def)
  have diff: "long_a \<noteq> long_b"
    by (simp add: long_a_def long_b_def)
  have "frag_id (paragraph_chunks pdf_a (doc_id_of pdf_a) (Paragraphs [long_a]) ! 0) =
        frag_id (paragraph_chunks pdf_a (doc_id_of pdf_a) (Paragraphs [long_b]) ! 0)"
    using paragraph_id_prefix [of 0 "[long_a]" "[long_b]", OF _ _ same] by simp
  with same diff show ?thesis by simp
qed

section \<open>Properties of the sniffers\<close>

subsection \<open>Money parsing\<close>

text \<open>
  C2: \<open>parse_money\<close> removes every comma and space before it searches, so the pattern
  never sees a thousands separator and its first group of at most three digits is the
  whole match: both \<open>$1,234.56\<close> and \<open>12 345\<close> give 123, not 1234.56 and 12345.
  A string without digits gives no value.
\<close>

theorem parse_money_thousands:
  "parse_money ''$1,234.56'' = Inr (Some (123, 0)) \<and>
   parse_money ''12 345'' = Inr (Some (123, 0)) \<and>
   parse_money ''no numbers here'' = Inr None"
  by code_simp

subsection \<open>The grand total\<close>

















section \<open>Properties of the chunkers\<close>

lemma row_fragment_blank: "blank_row row \<Longrightarrow> row_fragment p d pg r row = None"
  by (auto simp: blank_row_def row_fragment_def row_cells_def)

lemma row_fragment_nonblank: "\<not> blank_row row \<Longrightarrow> row_fragment p d pg r row \<noteq> None"
  by (auto simp: blank_row_def row_fragment_def row_cells_def Let_def)

lemma table_fragments_append:
  "table_fragments p d pg r (xs @ ys) =
     table_fragments p d pg r xs @ table_fragments p d pg (r + length xs) ys"
  by (induction xs arbitrary: r) auto

lemma table_fragments_trailing_blank:
  "blank_row row \<Longrightarrow> table_fragments p d pg r (rows @ [row]) = table_fragments p d pg r rows"
  by (simp add: table_fragments_append row_fragment_blank)

lemma page_fragments_cong:
  assumes "\<And>pg. concat (map (table_fragments p d pg 0) T) = concat (map (table_fragments p d pg 0) T')"
  shows "page_fragments p d n (before @ PageTables T # after) =
         page_fragments p d n (before @ PageTables T' # after)"
proof (induction before arbitrary: n)
  case Nil
  show ?case using assms by simp
next
  case (Cons x before)
  then show ?case by (cases x) auto
qed

text \<open>
  C7: a table row whose every cell is empty or white space yields no fragment record:
  the rows before and after it yield what they yield without it, under their own row
  indices. As the graph is built from the fragment records, a blank row at the end of a
  table changes neither the fragments nor the graph: it adds no \<open>Chunk\<close> node and no
  edge.
\<close>

theorem blank_row_skipped:
  assumes "blank_row row"
  shows "row_fragment p d pg r row = None \<and>
    table_fragments p d pg r (pre @ row # post) =
      table_fragments p d pg r pre @ table_fragments p d pg (Suc (r + length pre)) post \<and>
    table_rows p d (before @ PageTables (ts1 @ (rows @ [row]) # ts2) # after) =
      table_rows p d (before @ PageTables (ts1 @ rows # ts2) # after) \<and>
    build_graph_and_maps p chunks (before @ PageTables (ts1 @ (rows @ [row]) # ts2) # after) =
      build_graph_and_maps p chunks (before @ PageTables (ts1 @ rows # ts2) # after)"
proof -
  have a: "row_fragment p d pg r row = None" for d pg r
    using assms by (rule row_fragment_blank)
  have b: "table_fragments p d pg r (pre @ row # post) =
      table_fragments p d pg r pre @ table_fragments p d pg (Suc (r + length pre)) post"
    by (simp add: table_fragments_append a)
  have c: "page_fragments p d n (before @ PageTables (ts1 @ (rows @ [row]) # ts2) # after) =
      page_fragments p d n (before @ PageTables (ts1 @ rows # ts2) # after)" for d n
    by (rule page_fragments_cong) (simp add: table_fragments_trailing_blank assms)
  have e: "build_graph_and_maps p chunks (before @ PageTables (ts1 @ (rows @ [row]) # ts2) # after) =
      build_graph_and_maps p chunks (before @ PageTables (ts1 @ rows # ts2) # after)"
    unfolding build_graph_and_maps_def table_rows_def c ..
  show ?thesis using a b c e by (simp add: table_rows_def)
qed

theorem blank_row_skipped_witness:
  "blank_row blank_cells \<and> \<not> blank_row item_cells \<and>
   row_fragment pdf_a (doc_id_of pdf_a) 1 1 blank_cells = None \<and>
   table_rows pdf_a (doc_id_of pdf_a) [PageTables [[item_cells, blank_cells]]] =
   table_rows pdf_a (doc_id_of pdf_a) [PageTables [[item_cells]]] \<and>
   build_graph_and_maps pdf_a (Paragraphs []) [PageTables [[item_cells, blank_cells]]] =
   build_graph_and_maps pdf_a (Paragraphs []) [PageTables [[item_cells]]]"
proof -
  have blank: "blank_row blank_cells"
    by (simp add: blank_row_def blank_cells_def strip_def is_space_def)
  have item: "\<not> blank_row item_cells"
    by (simp add: blank_row_def item_cells_def strip_def is_space_def)
  from blank_row_skipped [OF blank, of pdf_a "doc_id_of pdf_a" 1 1 "[]" "[]" "[]" "[]" "[item_cells]" "[]" "[]"
      "Paragraphs []"] blank item
  show ?thesis by simp
qed

section \<open>Properties of the graph builder\<close>

subsection \<open>The builder has no failing branch\<close>

text \<open>
  The text that \<open>parse_money\<close> searches holds no comma and no space, so what the
  pattern captures is one to three digits with an optional two-digit fraction, which
  \<open>float\<close> reads.
\<close>

lemma rx_search_suffix: "rx_search m s = Some g \<Longrightarrow> \<exists>n. m (drop n s) = Some g"
proof (induction s)
  case Nil
  then show ?case by simp
next
  case (Cons c cs)
  show ?case
  proof (cases "m (c # cs)")
    case None
    with Cons obtain n where "m (drop n cs) = Some g" by auto
    then have "m (drop (Suc n) (c # cs)) = Some g" by simp
    then show ?thesis by blast
  next
    case (Some a)
    with Cons.prems have "m (drop 0 (c # cs)) = Some g" by simp
    then show ?thesis by blast
  qed
qed

lemma digit_groups_no_sep: "\<forall>c \<in> set s. \<not> is_sep c \<Longrightarrow> digit_groups s = []"
  by (cases s rule: digit_groups.cases) auto

lemma fraction_cases:
  "fraction s = [] \<or> (\<exists>a b. fraction s = [CHR ''.'', a, b] \<and> is_digit a \<and> is_digit b)"
  by (cases s rule: fraction.cases) auto

lemma not_digit_dot: "\<not> is_digit (CHR ''.'')"
  by (simp add: is_digit_def)

lemma py_float_money:
  assumes "d \<noteq> []" and "\<forall>c \<in> set d. is_digit c"
    and "f = [] \<or> (\<exists>a b. f = [CHR ''.'', a, b] \<and> is_digit a \<and> is_digit b)"
  shows "py_float (d @ f) \<noteq> None"
proof -
  have tw: "takeWhile is_digit (d @ f) = d" "dropWhile is_digit (d @ f) = f"
    using assms by (auto simp: takeWhile_append dropWhile_append not_digit_dot)
  have hd: "is_digit (hd (d @ f))" using assms by (cases d) auto
  have chars: "\<not> (\<exists>c \<in> set (d @ f). \<not> is_digit c \<and> c \<noteq> CHR ''.'')" using assms by auto
  show ?thesis
    unfolding py_float_def Let_def tw using assms hd chars by auto
qed

lemma money_number_float:
  assumes "\<forall>c \<in> set s. \<not> is_sep c" and "s \<noteq> []" and "is_digit (hd s)"
  shows "py_float (money_number s) \<noteq> None"
proof -
  let ?d = "takeWhile is_digit (take 3 s)"
  have d: "?d \<noteq> []" using assms by (cases s) auto
  have dd: "\<forall>c \<in> set ?d. is_digit c" by (auto dest: set_takeWhileD)
  have "\<forall>c \<in> set (drop (length ?d) s). \<not> is_sep c" using assms(1) by (auto dest: in_set_dropD)
  then have g: "digit_groups (drop (length ?d) s) = []" by (rule digit_groups_no_sep)
  show ?thesis
    unfolding money_number_def Let_def g
    using py_float_money [OF d dd fraction_cases [of "drop (length ?d + length ([]::string)) s"]]
    by simp
qed

lemma set_drop_dollar: "set (drop_dollar t) \<subseteq> set t"
  by (cases t) (auto simp: drop_dollar_def)

lemma not_sep_space: "is_space c \<Longrightarrow> c \<noteq> CHR '','' "
  by (auto simp: is_space_def)

lemma parse_money_total: "\<exists>r. parse_money s = Inr r"
proof (cases "rx_search money_rx_match (remove_char CHR '' '' (remove_char CHR '','' s))")
  case None
  then show ?thesis by (simp add: parse_money_def)
next
  case (Some g)
  let ?t = "remove_char CHR '' '' (remove_char CHR '','' s)"
  have nosep: "\<forall>c \<in> set ?t. \<not> is_sep c" by (auto simp: remove_char_def is_sep_def)
  from rx_search_suffix [OF Some] obtain n where n: "money_rx_match (drop n ?t) = Some g" by blast
  then obtain c cs where r: "dropWhile is_space (drop_dollar (drop n ?t)) = c # cs"
    and c: "is_digit c" and g: "g = money_number (c # cs)"
    by (auto simp: money_rx_match_def split: list.splits if_splits)
  have "set (drop_dollar (drop n ?t)) \<subseteq> set ?t"
    using set_drop_dollar [of "drop n ?t"] set_drop_subset [of n ?t] by blast
  moreover have "set (c # cs) \<subseteq> set (drop_dollar (drop n ?t))"
    unfolding r [symmetric] by (rule set_dropWhileD [THEN subsetI])
  ultimately have "\<forall>x \<in> set (c # cs). \<not> is_sep x" using nosep by blast
  from money_number_float [OF this] c g have "py_float g \<noteq> None" by simp
  then show ?thesis using Some by (auto simp: parse_money_def)
qed

lemma row_ext_cost_total: "\<exists>r. row_ext_cost parts = Inr r"
  using parse_money_total by (simp add: row_ext_cost_def)

lemma rows_loop_total: "\<exists>g items. rows_loop doc_id ent_id rcs st = Inr (g, items)"
proof (induction rcs arbitrary: st)
  case Nil
  then show ?case by (cases st) simp
next
  case (Cons rc rcs)
  obtain r where r: "row_ext_cost (map strip (split_on CHR ''|'' (frag_text rc))) = Inr r"
    using row_ext_cost_total by blast
  show ?case
    using Cons.IH by (cases r) (simp_all add: r Let_def)
qed

lemma build_total: "\<exists>g dm cs. build_graph_and_maps p chunks pages = Inr (g, dm, cs)"
proof -
  obtain g items where
    "rows_loop (doc_id_of p) (map_option ent_id_of (truthy (sniff_vendor
        (join [CHR 0x0A] (map frag_text (paragraph_chunks p (doc_id_of p) chunks))))))
      (table_rows p (doc_id_of p) pages)
      (entity_step (doc_id_of p) (sniff_vendor
        (join [CHR 0x0A] (map frag_text (paragraph_chunks p (doc_id_of p) chunks))))
        (add_node empty_graph (doc_id_of p)
          [(''label'', AStr ''Document''), (''docname'', AStr (pdf_name p)),
           (''path'', AStr (pdf_path p))]), []) = Inr (g, items)"
    using rows_loop_total by blast
  then show ?thesis
    by (simp add: build_graph_and_maps_def Let_def)
qed

subsection \<open>The graph operations keep the invariant\<close>

lemma map_of_dict_update:
  "distinct (map fst new) \<Longrightarrow> map_of (dict_update d new) = map_of d ++ map_of new"
proof (induction new arbitrary: d)
  case Nil
  then show ?case by (simp add: dict_update_def)
next
  case (Cons kv new)
  then have k: "fst kv \<notin> dom (map_of new)" by (auto simp: dom_map_of_conv_image_fst)
  have "map_of (dict_update d (kv # new)) = map_of (dict_update (AList.update (fst kv) (snd kv) d) new)"
    by (simp add: dict_update_def)
  also have "\<dots> = map_of (AList.update (fst kv) (snd kv) d) ++ map_of new"
    using Cons by simp
  also have "\<dots> = map_of d ++ map_of (kv # new)"
    using k by (cases kv) (auto simp: AList.update_conv' map_add_def fun_eq_iff split: option.splits)
  finally show ?case .
qed

lemma distinct_dict_update:
  "distinct (map fst d) \<Longrightarrow> distinct (map fst (dict_update d new))"
  unfolding dict_update_def
  by (induction new arbitrary: d) (simp_all add: AList.distinct_update)

lemma set_alist_update:
  "kv \<in> set (AList.update k v al) \<Longrightarrow> kv = (k, v) \<or> kv \<in> set al"
  by (induction al) (auto split: if_splits)

lemma keys_alist_update: "fst ` set (AList.update k v al) = insert k (fst ` set al)"
  using AList.dom_update [of k v al] by simp

lemma node_attrs_mem:
  "n \<in> node_ids G \<Longrightarrow> (n, node_attrs G n) \<in> set (nodes G)"
  unfolding node_ids_def node_attrs_def
  by (auto simp: image_iff split: option.splits dest: map_of_SomeD weak_map_of_SomeI)

lemma node_attrs_new: "n \<notin> node_ids G \<Longrightarrow> node_attrs G n = []"
  unfolding node_ids_def node_attrs_def
  by (simp add: map_of_eq_None_iff [THEN iffD2])

lemma node_ids_add_node: "node_ids (add_node G n a) = insert n (node_ids G)"
  by (simp add: node_ids_def add_node_def keys_alist_update)

lemma edges_add_node [simp]: "edges (add_node G n a) = edges G"
  by (simp add: add_node_def)

lemma label_dict_update:
  assumes "distinct (map fst a)"
  shows "dict_get (dict_update old a) ''label'' =
     (if ''label'' \<in> fst ` set a then dict_get a ''label'' else dict_get old ''label'')"
proof (cases "''label'' \<in> fst ` set a")
  case True
  then obtain x where "map_of a ''label'' = Some x"
    using map_of_eq_None_iff [of a "''label''"] by auto
  then show ?thesis using True assms
    by (simp add: dict_get_def map_of_dict_update map_add_def)
next
  case False
  then have "map_of a ''label'' = None" by (simp add: map_of_eq_None_iff)
  then show ?thesis using False assms
    by (simp add: dict_get_def map_of_dict_update map_add_def)
qed

lemma dict_get_absent: "k \<notin> fst ` set a \<Longrightarrow> dict_get a k = ANone"
  by (simp add: dict_get_def map_of_eq_None_iff [THEN iffD2])

lemma graph_inv_add_node:
  assumes inv: "graph_inv G" and da: "distinct (map fst a)"
    and lab: "dict_get a ''label'' = AStr ''Entity'' \<longleftrightarrow> is_ent_id n"
  shows "graph_inv (add_node G n a)"
proof -
  let ?d = "dict_update (node_attrs G n) a"
  have old_d: "distinct (map fst (node_attrs G n))"
  proof (cases "n \<in> node_ids G")
    case True
    from node_attrs_mem [OF this] inv show ?thesis by (auto simp: graph_inv_def)
  next
    case False
    then show ?thesis by (simp add: node_attrs_new)
  qed
  have old_l: "''label'' \<notin> fst ` set a \<Longrightarrow> dict_get (node_attrs G n) ''label'' \<noteq> AStr ''Entity''"
  proof -
    assume na: "''label'' \<notin> fst ` set a"
    then have "\<not> is_ent_id n" using lab by (simp add: dict_get_absent)
    show ?thesis
    proof (cases "n \<in> node_ids G")
      case True
      from node_attrs_mem [OF this] inv \<open>\<not> is_ent_id n\<close> show ?thesis
        by (auto simp: graph_inv_def)
    next
      case False
      then show ?thesis by (simp add: node_attrs_new dict_get_def)
    qed
  qed
  have new_ok: "distinct (map fst ?d) \<and> (dict_get ?d ''label'' = AStr ''Entity'' \<longleftrightarrow> is_ent_id n)"
    using old_d da lab old_l
    by (auto simp: distinct_dict_update label_dict_update dict_get_absent)
  have nodes: "\<forall>nd \<in> set (nodes (add_node G n a)). distinct (map fst (snd nd)) \<and>
         (dict_get (snd nd) ''label'' = AStr ''Entity'' \<longleftrightarrow> is_ent_id (fst nd))"
  proof
    fix nd assume "nd \<in> set (nodes (add_node G n a))"
    then have "nd = (n, ?d) \<or> nd \<in> set (nodes G)"
      by (auto simp: add_node_def dest: set_alist_update)
    then show "distinct (map fst (snd nd)) \<and>
         (dict_get (snd nd) ''label'' = AStr ''Entity'' \<longleftrightarrow> is_ent_id (fst nd))"
      using new_ok inv by (auto simp: graph_inv_def)
  qed
  have "distinct (map fst (nodes (add_node G n a)))"
    using inv by (simp add: add_node_def graph_inv_def AList.distinct_update)
  moreover have "\<forall>e \<in> set (edges (add_node G n a)).
      fst (fst e) \<in> node_ids (add_node G n a) \<and> snd (fst e) \<in> node_ids (add_node G n a)"
    using inv by (auto simp: graph_inv_def node_ids_add_node)
  ultimately show ?thesis using nodes by (simp add: graph_inv_def)
qed

lemma ent_keys_add_node:
  "ent_keys (add_node G n a) =
     (if is_ent_id n \<and> n \<notin> node_ids G then ent_keys G @ [n] else ent_keys G)"
  by (auto simp: ent_keys_def add_node_def node_ids_def AList.update_keys)

lemma touch_node_known [simp]: "n \<in> node_ids G \<Longrightarrow> touch_node G n = G"
  by (simp add: touch_node_def node_ids_def)

lemma node_ids_touch_node: "node_ids (touch_node G n) = insert n (node_ids G)"
  by (auto simp: touch_node_def node_ids_def)

lemma edges_touch_node [simp]: "edges (touch_node G n) = edges G"
  by (simp add: touch_node_def)

lemma graph_inv_touch_node:
  assumes "graph_inv G" and "n \<in> node_ids G \<or> \<not> is_ent_id n"
  shows "graph_inv (touch_node G n) \<and> ent_keys (touch_node G n) = ent_keys G"
proof (cases "n \<in> node_ids G")
  case True
  then show ?thesis using assms by simp
next
  case False
  then have ne: "\<not> is_ent_id n" using assms by blast
  have "nodes (touch_node G n) = nodes G @ [(n, [])]"
    using False by (simp add: touch_node_def node_ids_def)
  then show ?thesis
    using assms(1) False ne
    by (auto simp: graph_inv_def node_ids_def ent_keys_def dict_get_def)
qed

lemma nodes_add_edge: "nodes (add_edge G u v a) = nodes (touch_node (touch_node G u) v)"
  by (simp add: add_edge_def Let_def)

lemma graph_inv_add_edge:
  assumes "graph_inv G" and "u \<in> node_ids G \<or> \<not> is_ent_id u" and "v \<in> node_ids G \<or> \<not> is_ent_id v"
  shows "graph_inv (add_edge G u v a) \<and> ent_keys (add_edge G u v a) = ent_keys G \<and>
         node_ids G \<subseteq> node_ids (add_edge G u v a)"
proof -
  let ?G1 = "touch_node (touch_node G u) v"
  have 1: "graph_inv (touch_node G u)" "ent_keys (touch_node G u) = ent_keys G"
    using graph_inv_touch_node [OF assms(1,2)] by auto
  have "v \<in> node_ids (touch_node G u) \<or> \<not> is_ent_id v"
    using assms(3) by (auto simp: node_ids_touch_node)
  from graph_inv_touch_node [OF 1(1) this] 1(2)
  have 2: "graph_inv ?G1" "ent_keys ?G1 = ent_keys G" by auto
  have ids: "node_ids ?G1 = insert v (insert u (node_ids G))"
    by (simp add: node_ids_touch_node)
  have n: "nodes (add_edge G u v a) = nodes ?G1" by (rule nodes_add_edge)
  have e: "\<forall>e \<in> set (edges (add_edge G u v a)). fst (fst e) \<in> node_ids ?G1 \<and> snd (fst e) \<in> node_ids ?G1"
  proof
    fix e assume "e \<in> set (edges (add_edge G u v a))"
    then have "fst e = (u, v) \<or> e \<in> set (edges ?G1)"
      by (auto simp: add_edge_def Let_def dest!: set_alist_update)
    then show "fst (fst e) \<in> node_ids ?G1 \<and> snd (fst e) \<in> node_ids ?G1"
      using 2(1) ids by (auto simp: graph_inv_def)
  qed
  have "graph_inv (add_edge G u v a)"
    using 2(1) e unfolding graph_inv_def node_ids_def n by simp
  moreover have "ent_keys (add_edge G u v a) = ent_keys G"
    using 2(2) by (simp add: ent_keys_def n)
  moreover have "node_ids G \<subseteq> node_ids (add_edge G u v a)"
    using ids by (auto simp: node_ids_def n)
  ultimately show ?thesis by blast
qed

lemma labelled_comprehension:
  "[n. (n, d) \<leftarrow> xs, P d] = map fst (filter (\<lambda>nd. P (snd nd)) xs)"
  by (induction xs) auto

lemma entity_nodes_eq: "graph_inv G \<Longrightarrow> entity_nodes G = ent_keys G"
proof -
  assume inv: "graph_inv G"
  have "entity_nodes G = map fst (filter (\<lambda>nd. dict_get (snd nd) ''label'' = AStr ''Entity'') (nodes G))"
    unfolding entity_nodes_def by (rule labelled_comprehension)
  also have "\<dots> = map fst (filter (\<lambda>nd. is_ent_id (fst nd)) (nodes G))"
    using inv by (intro arg_cong [where f = "map fst"] filter_cong) (auto simp: graph_inv_def)
  also have "\<dots> = ent_keys G"
    by (simp add: ent_keys_def filter_map comp_def)
  finally show ?thesis .
qed

lemma ent_keys_subset: "set (ent_keys G) \<subseteq> node_ids G"
  by (auto simp: ent_keys_def node_ids_def)

subsection \<open>The builder keeps the invariant\<close>

lemma is_ent_id_make_id:
  "is_ent_id (make_id ''ENT'' p)" "\<not> is_ent_id (make_id ''DOC'' p)" "\<not> is_ent_id (make_id ''TBL'' p)"
  "\<not> is_ent_id (make_id ''LIT'' p)" "\<not> is_ent_id (make_id ''PCH'' p)"
  by (simp_all add: is_ent_id_def make_id_def)

lemma tracked_add_node:
  assumes "tracked G E" and "distinct (map fst a)" and "\<not> is_ent_id n"
    and "dict_get a ''label'' \<noteq> AStr ''Entity''"
  shows "tracked (add_node G n a) E \<and> node_ids G \<subseteq> node_ids (add_node G n a)"
  using assms graph_inv_add_node [of G a n]
  by (auto simp: tracked_def ent_keys_add_node node_ids_add_node)

lemma tracked_add_edge:
  assumes "tracked G E" and "u \<in> node_ids G \<or> \<not> is_ent_id u" and "v \<in> node_ids G \<or> \<not> is_ent_id v"
  shows "tracked (add_edge G u v a) E \<and> node_ids G \<subseteq> node_ids (add_edge G u v a)"
  using assms graph_inv_add_edge [of G u v a] by (auto simp: tracked_def)

lemma tracked_mem: "tracked G E \<Longrightarrow> e \<in> set E \<Longrightarrow> e \<in> node_ids G"
  using ent_keys_subset [of G] by (auto simp: tracked_def)

lemma tracked_add_line_item:
  assumes t: "tracked (fst st) E" and ent: "\<forall>e. ent_id = Some e \<longrightarrow> e \<in> set E"
    and rc: "\<not> is_ent_id (frag_id rc)"
  shows "tracked (fst (add_line_item doc_id ent_id rc parts ext st)) E"
proof -
  let ?desc = "take 200 (join '' | '' (butlast parts))"
  let ?lid = "lit_id doc_id (frag_page rc) ?desc ext"
  let ?g1 = "add_node (fst st) ?lid
                 [(''label'', AStr ''LineItem''), (''ext_cost'', AFloat (fst ext) (snd ext)),
                  (''page'', page_value (frag_page rc)), (''desc'', AStr ?desc)]"
  let ?g2 = "add_edge ?g1 (frag_id rc) ?lid [(''rel'', AStr ''HAS_LINEITEM'')]"
  have lid: "\<not> is_ent_id ?lid" by (simp add: lit_id_def is_ent_id_make_id)
  have 1: "tracked ?g1 E" "node_ids (fst st) \<subseteq> node_ids ?g1"
    using tracked_add_node [OF t _ lid] by (simp_all add: dict_get_def)
  have 2: "tracked ?g2 E" "node_ids ?g1 \<subseteq> node_ids ?g2"
    using tracked_add_edge [OF 1(1), of "frag_id rc" ?lid] rc lid by simp_all
  have 3: "tracked (case ent_id of None \<Rightarrow> ?g2
                | Some e \<Rightarrow> add_edge ?g2 ?lid e [(''rel'', AStr ''ITEM_FOR'')]) E"
  proof (cases ent_id)
    case None
    then show ?thesis using 2 by simp
  next
    case (Some e)
    then have "e \<in> node_ids ?g2" using ent tracked_mem [OF 2(1)] by simp
    then show ?thesis using Some tracked_add_edge [OF 2(1), of ?lid e] lid by simp
  qed
  then show ?thesis by (simp add: add_line_item_def Let_def)
qed

lemma tracked_rows_loop:
  assumes "tracked (fst st) E" and "\<forall>e. ent_id = Some e \<longrightarrow> e \<in> set E"
    and "\<forall>rc \<in> set rcs. \<not> is_ent_id (frag_id rc)" and "\<not> is_ent_id doc_id"
    and "rows_loop doc_id ent_id rcs st = Inr (g, items)"
  shows "tracked g E"
  using assms
proof (induction rcs arbitrary: st)
  case Nil
  then show ?case by (cases st) simp
next
  case (Cons rc rcs)
  let ?g1 = "add_node (fst st) (frag_id rc)
                 [(''label'', AStr ''Chunk''), (''type'', AStr (frag_type rc)),
                  (''page'', page_value (frag_page rc)), (''docname'', AStr (frag_docname rc))]"
  let ?g2 = "add_edge ?g1 doc_id (frag_id rc) [(''rel'', AStr ''HAS_CHUNK'')]"
  let ?parts = "map strip (split_on CHR ''|'' (frag_text rc))"
  have rc: "\<not> is_ent_id (frag_id rc)" using Cons.prems(3) by simp
  have 1: "tracked ?g1 E"
    using tracked_add_node [OF Cons.prems(1) _ rc] by (simp add: dict_get_def)
  have 2: "tracked ?g2 E"
    using tracked_add_edge [OF 1, of doc_id "frag_id rc"] rc Cons.prems(4) by simp
  obtain r where r: "row_ext_cost ?parts = Inr r" using row_ext_cost_total by blast
  show ?case
  proof (cases r)
    case None
    with r Cons.prems(5) have "rows_loop doc_id ent_id rcs (?g2, snd st) = Inr (g, items)"
      by (simp add: Let_def)
    from Cons.IH [OF _ Cons.prems(2) _ Cons.prems(4) this] 2 Cons.prems(3)
    show ?thesis by simp
  next
    case (Some ext)
    with r Cons.prems(5)
    have "rows_loop doc_id ent_id rcs (add_line_item doc_id ent_id rc ?parts ext (?g2, snd st)) = Inr (g, items)"
      by (simp add: Let_def)
    moreover have "tracked (fst (add_line_item doc_id ent_id rc ?parts ext (?g2, snd st))) E"
      using tracked_add_line_item [of "(?g2, snd st)" E ent_id rc] 2 Cons.prems(2) rc by simp
    ultimately show ?thesis
      using Cons.IH [OF _ Cons.prems(2) _ Cons.prems(4)] Cons.prems(3) by simp
  qed
qed

lemma tracked_paragraphs_loop:
  assumes "tracked g E" and "\<forall>e. ent_id = Some e \<longrightarrow> e \<in> set E"
    and "\<forall>pc \<in> set pcs. \<not> is_ent_id (frag_id pc)" and "\<not> is_ent_id doc_id"
  shows "tracked (paragraphs_loop doc_id ent_id pcs g) E"
  using assms
proof (induction pcs arbitrary: g)
  case Nil
  then show ?case by simp
next
  case (Cons pc pcs)
  let ?g1 = "add_node g (frag_id pc)
                 [(''label'', AStr ''Chunk''), (''type'', AStr (frag_type pc)),
                  (''docname'', AStr (frag_docname pc))]"
  let ?g2 = "add_edge ?g1 doc_id (frag_id pc) [(''rel'', AStr ''HAS_CHUNK'')]"
  let ?g3 = "case ent_id of None \<Rightarrow> ?g2
                | Some e \<Rightarrow> add_edge ?g2 (frag_id pc) e [(''rel'', AStr ''MENTIONS'')]"
  have pc: "\<not> is_ent_id (frag_id pc)" using Cons.prems(3) by simp
  have 1: "tracked ?g1 E"
    using tracked_add_node [OF Cons.prems(1) _ pc] by (simp add: dict_get_def)
  have 2: "tracked ?g2 E"
    using tracked_add_edge [OF 1, of doc_id "frag_id pc"] pc Cons.prems(4) by simp
  have 3: "tracked ?g3 E"
  proof (cases ent_id)
    case None
    then show ?thesis using 2 by simp
  next
    case (Some e)
    then have "e \<in> node_ids ?g2" using Cons.prems(2) tracked_mem [OF 2] by simp
    then show ?thesis using Some tracked_add_edge [OF 2, of "frag_id pc" e] pc by simp
  qed
  show ?case
    using Cons.IH [OF 3 Cons.prems(2) _ Cons.prems(4)] Cons.prems(3) by (simp add: Let_def)
qed

lemma table_fragments_ids:
  "rc \<in> set (table_fragments p d pg r rows) \<Longrightarrow> \<not> is_ent_id (frag_id rc)"
  by (induction rows arbitrary: r)
     (auto simp: row_fragment_def tbl_id_def is_ent_id_make_id Let_def split: if_splits)

lemma page_fragments_ids:
  "rc \<in> set (page_fragments p d pg pages) \<Longrightarrow> \<not> is_ent_id (frag_id rc)"
  by (induction p d pg pages rule: page_fragments.induct) (auto dest: table_fragments_ids)

lemma paragraph_chunks_ids:
  "pc \<in> set (paragraph_chunks p d chunks) \<Longrightarrow> \<not> is_ent_id (frag_id pc)"
  by (auto simp: paragraph_chunks_def pch_id_def is_ent_id_make_id)

lemma paragraph_chunks_texts:
  "join [CHR 0x0A] (map frag_text (paragraph_chunks p d chunks)) = fulltext_of chunks"
proof -
  have "map frag_text (paragraph_chunks p d chunks) =
      (case chunks of Whole s \<Rightarrow> [s] | Paragraphs ps \<Rightarrow> ps)"
    by (simp add: paragraph_chunks_def comp_def case_prod_beta map_snd_enumerate [unfolded o_def])
  then show ?thesis by (simp add: fulltext_of_def)
qed

lemma tracked_empty: "tracked empty_graph []"
  by (simp add: tracked_def graph_inv_def ent_keys_def empty_graph_def)

lemma tracked_entity_step:
  assumes "tracked g []" and "doc_id \<in> node_ids g"
  shows "tracked (entity_step doc_id vendor g)
           (case truthy vendor of None \<Rightarrow> [] | Some v \<Rightarrow> [ent_id_of v])"
proof (cases "truthy vendor")
  case None
  then show ?thesis using assms by (simp add: entity_step_def)
next
  case (Some v)
  let ?a = "[(''label'', AStr ''Entity''), (''type'', AStr ''Vendor''), (''name'', AStr v)]"
  let ?g1 = "add_node g (ent_id_of v) ?a"
  have e: "is_ent_id (ent_id_of v)" by (simp add: ent_id_of_def is_ent_id_make_id)
  have new: "ent_id_of v \<notin> node_ids g"
  proof
    assume "ent_id_of v \<in> node_ids g"
    then have "ent_id_of v \<in> set (ent_keys g)" using e by (auto simp: ent_keys_def node_ids_def)
    then show False using assms(1) by (simp add: tracked_def)
  qed
  have "graph_inv ?g1"
    using assms(1) e by (intro graph_inv_add_node) (simp_all add: tracked_def dict_get_def)
  moreover have "ent_keys ?g1 = [ent_id_of v]"
    using assms(1) e new by (simp add: ent_keys_add_node tracked_def)
  ultimately have 1: "tracked ?g1 [ent_id_of v]" by (simp add: tracked_def)
  have "doc_id \<in> node_ids ?g1" "ent_id_of v \<in> node_ids ?g1"
    using assms(2) by (simp_all add: node_ids_add_node)
  with tracked_add_edge [OF 1, of doc_id "ent_id_of v"] Some
  show ?thesis by (simp add: entity_step_def)
qed

lemma tracked_build:
  assumes "build_graph_and_maps p chunks pages = Inr (g, dm, cs)"
  shows "tracked g (case truthy (sniff_vendor (fulltext_of chunks)) of
                      None \<Rightarrow> [] | Some v \<Rightarrow> [ent_id_of v])"
proof -
  let ?doc = "doc_id_of p"
  let ?vendor = "sniff_vendor (fulltext_of chunks)"
  let ?E = "case truthy ?vendor of None \<Rightarrow> [] | Some v \<Rightarrow> [ent_id_of v]"
  let ?ent = "map_option ent_id_of (truthy ?vendor)"
  let ?g0 = "add_node empty_graph ?doc
               [(''label'', AStr ''Document''), (''docname'', AStr (pdf_name p)),
                (''path'', AStr (pdf_path p))]"
  let ?g1 = "entity_step ?doc ?vendor ?g0"
  have doc: "\<not> is_ent_id ?doc" by (simp add: doc_id_of_def is_ent_id_make_id)
  have 0: "tracked ?g0 []"
    using tracked_add_node [OF tracked_empty _ doc] by (simp add: dict_get_def)
  have "?doc \<in> node_ids ?g0" by (simp add: node_ids_add_node)
  from tracked_entity_step [OF 0 this] have 1: "tracked ?g1 ?E" .
  have ent: "\<forall>e. ?ent = Some e \<longrightarrow> e \<in> set ?E" by (auto split: option.splits)
  from assms obtain g2 items where
    rows: "rows_loop ?doc ?ent (table_rows p ?doc pages) (?g1, []) = Inr (g2, items)"
    and g: "g = paragraphs_loop ?doc ?ent (paragraph_chunks p ?doc chunks) g2"
    by (auto simp: build_graph_and_maps_def Let_def paragraph_chunks_texts split: sum.splits)
  have 2: "tracked g2 ?E"
    by (rule tracked_rows_loop [OF _ ent _ doc rows])
       (use 1 in \<open>auto simp: table_rows_def dest: page_fragments_ids\<close>)
  show ?thesis
    unfolding g
    by (rule tracked_paragraphs_loop [OF 2 ent _ doc]) (auto dest: paragraph_chunks_ids)
qed

lemma tracked_doc_graph:
  "tracked (doc_graph p chunks pages)
     (case truthy (sniff_vendor (fulltext_of chunks)) of None \<Rightarrow> [] | Some v \<Rightarrow> [ent_id_of v])"
proof -
  obtain g dm cs where b: "build_graph_and_maps p chunks pages = Inr (g, dm, cs)"
    using build_total by blast
  from tracked_build [OF b] b show ?thesis by (simp add: doc_graph_def)
qed

subsection \<open>The corpus graph\<close>

lemma tracked_add_nodes:
  assumes "tracked R E" and "distinct (map fst nds)"
    and "\<forall>nd \<in> set nds. distinct (map fst (snd nd)) \<and>
           (dict_get (snd nd) ''label'' = AStr ''Entity'' \<longleftrightarrow> is_ent_id (fst nd))"
  shows "tracked (add_nodes R nds) (E @ [k \<leftarrow> filter is_ent_id (map fst nds). k \<notin> node_ids R]) \<and>
         node_ids (add_nodes R nds) = node_ids R \<union> fst ` set nds"
  using assms
proof (induction nds arbitrary: R E)
  case Nil
  then show ?case by simp
next
  case (Cons nd nds)
  let ?R = "add_node R (fst nd) (snd nd)"
  let ?E = "if is_ent_id (fst nd) \<and> fst nd \<notin> node_ids R then E @ [fst nd] else E"
  have "graph_inv ?R"
    using Cons.prems by (intro graph_inv_add_node) (simp_all add: tracked_def)
  then have t: "tracked ?R ?E"
    using Cons.prems(1) by (simp add: tracked_def ent_keys_add_node)
  have ids: "node_ids ?R = insert (fst nd) (node_ids R)" by (rule node_ids_add_node)
  have rest: "[k \<leftarrow> filter is_ent_id (map fst nds). k \<notin> node_ids ?R] =
              [k \<leftarrow> filter is_ent_id (map fst nds). k \<notin> node_ids R]"
  proof (rule filter_cong [OF refl])
    fix k assume "k \<in> set (filter is_ent_id (map fst nds))"
    then have "k \<in> set (map fst nds)" by simp
    moreover have "fst nd \<notin> set (map fst nds)" using Cons.prems(2) by simp
    ultimately have "k \<noteq> fst nd" by blast
    then show "(k \<notin> node_ids ?R) = (k \<notin> node_ids R)" by (simp add: ids)
  qed
  from Cons.IH [OF t] Cons.prems
  have "tracked (add_nodes ?R nds) (?E @ [k \<leftarrow> filter is_ent_id (map fst nds). k \<notin> node_ids ?R])"
    and "node_ids (add_nodes ?R nds) = node_ids ?R \<union> fst ` set nds" by simp_all
  then show ?case unfolding rest by (auto simp: ids)
qed

lemma tracked_add_edges:
  assumes "tracked R E"
    and "\<forall>e \<in> set es. fst (fst e) \<in> node_ids R \<and> snd (fst e) \<in> node_ids R"
  shows "tracked (add_edges R es) E \<and> node_ids R \<subseteq> node_ids (add_edges R es)"
  using assms
proof (induction es arbitrary: R)
  case Nil
  then show ?case by simp
next
  case (Cons e es)
  let ?R = "add_edge R (fst (fst e)) (snd (fst e)) (snd e)"
  from tracked_add_edge [OF Cons.prems(1), of "fst (fst e)" "snd (fst e)" "snd e"] Cons.prems(2)
  have t: "tracked ?R E" and sub: "node_ids R \<subseteq> node_ids ?R" by auto
  have "\<forall>e \<in> set es. fst (fst e) \<in> node_ids ?R \<and> snd (fst e) \<in> node_ids ?R"
    using Cons.prems(2) sub by auto
  from Cons.IH [OF t this] sub show ?case by auto
qed

lemma tracked_compose:
  assumes G: "tracked G E1" and H: "tracked H E2"
  shows "tracked (compose G H) (E1 @ [k \<leftarrow> E2. k \<notin> set E1])"
proof -
  let ?R1 = "add_nodes empty_graph (nodes G)"
  let ?R2 = "add_nodes ?R1 (nodes H)"
  let ?R3 = "add_edges ?R2 (edges G)"
  have e0: "node_ids empty_graph = {}" by (simp add: node_ids_def empty_graph_def)
  have pG: "distinct (map fst (nodes G))"
    "\<forall>nd \<in> set (nodes G). distinct (map fst (snd nd)) \<and>
       (dict_get (snd nd) ''label'' = AStr ''Entity'' \<longleftrightarrow> is_ent_id (fst nd))"
    using G by (simp_all add: tracked_def graph_inv_def)
  have pH: "distinct (map fst (nodes H))"
    "\<forall>nd \<in> set (nodes H). distinct (map fst (snd nd)) \<and>
       (dict_get (snd nd) ''label'' = AStr ''Entity'' \<longleftrightarrow> is_ent_id (fst nd))"
    using H by (simp_all add: tracked_def graph_inv_def)
  have eG: "filter is_ent_id (map fst (nodes G)) = E1"
    using G by (simp add: tracked_def ent_keys_def)
  from tracked_add_nodes [OF tracked_empty pG]
  have 1: "tracked ?R1 E1" and i1: "node_ids ?R1 = node_ids G"
    by (simp_all add: e0 eG) (simp add: node_ids_def)
  from tracked_add_nodes [OF 1 pH]
  have 2: "tracked ?R2 (E1 @ [k \<leftarrow> filter is_ent_id (map fst (nodes H)). k \<notin> node_ids ?R1])"
    and i2: "node_ids ?R2 = node_ids G \<union> node_ids H"
    by (simp_all add: i1) (simp add: node_ids_def)
  have "[k \<leftarrow> filter is_ent_id (map fst (nodes H)). k \<notin> node_ids ?R1] = [k \<leftarrow> E2. k \<notin> set E1]"
  proof -
    have "filter is_ent_id (map fst (nodes H)) = E2" using H by (simp add: tracked_def ent_keys_def)
    moreover have "k \<notin> node_ids ?R1 \<longleftrightarrow> k \<notin> set E1" if "k \<in> set E2" for k
    proof -
      from that H have "is_ent_id k" by (auto simp: tracked_def ent_keys_def)
      then have "k \<in> node_ids G \<longleftrightarrow> k \<in> set (ent_keys G)"
        by (auto simp: ent_keys_def node_ids_def)
      then show ?thesis using G by (simp add: i1 tracked_def)
    qed
    ultimately show ?thesis by (auto intro: filter_cong)
  qed
  with 2 have r2: "tracked ?R2 (E1 @ [k \<leftarrow> E2. k \<notin> set E1])" by simp
  have "\<forall>e \<in> set (edges G). fst (fst e) \<in> node_ids ?R2 \<and> snd (fst e) \<in> node_ids ?R2"
    using G by (auto simp: tracked_def graph_inv_def i2)
  from tracked_add_edges [OF r2 this]
  have 3: "tracked ?R3 (E1 @ [k \<leftarrow> E2. k \<notin> set E1])" and i3: "node_ids ?R2 \<subseteq> node_ids ?R3" by auto
  have "\<forall>e \<in> set (edges H). fst (fst e) \<in> node_ids ?R3 \<and> snd (fst e) \<in> node_ids ?R3"
    using H i3 by (auto simp: tracked_def graph_inv_def i2)
  from tracked_add_edges [OF 3 this]
  show ?thesis by (simp add: compose_def Let_def)
qed

lemma tracked_corpus_same:
  assumes "tracked R E0" and "E0 = [] \<or> E0 = [e]" and "\<forall>g \<in> set gs. tracked g [e]"
  shows "tracked (foldl compose R gs) (if gs = [] then E0 else [e])"
  using assms
proof (induction gs arbitrary: R E0)
  case Nil
  then show ?case by simp
next
  case (Cons g gs)
  from tracked_compose [OF Cons.prems(1), of g "[e]"] Cons.prems(2,3)
  have "tracked (compose R g) [e]" by auto
  from Cons.IH [OF this] Cons.prems(3) show ?case by (cases gs) auto
qed

lemma bytes_acme_lower:
  "utf8 (canonical (PDict [(''type'', JAtom (AStr ''Vendor'')), (''name'', JAtom (AStr ''acme''))])) =
   [123, 34, 110, 97, 109, 101, 34, 58, 32, 34, 97, 99, 109, 101, 34, 44, 32, 34, 116, 121, 112,
    101, 34, 58, 32, 34, 86, 101, 110, 100, 111, 114, 34, 125]"
  by code_simp

lemma hash_acme_lower:
  "hexdigest (blake2s 8
     [123, 34, 110, 97, 109, 101, 34, 58, 32, 34, 97, 99, 109, 101, 34, 44, 32, 34, 116, 121, 112,
      101, 34, 58, 32, 34, 86, 101, 110, 100, 111, 114, 34, 125]) = ''bbc4a469d673c321''"
  by (simp add: blake2s_eval)

lemma ent_id_acme_lower: "ent_id_of ''acme'' = ''ENT:bbc4a469d673c321''"
  by (simp add: ent_id_of_def make_id_def bytes_acme_lower hash_acme_lower)

lemma sniffed_vendors:
  "truthy (sniff_vendor (fulltext_of paras_upper)) = Some ''ACME''"
  "truthy (sniff_vendor (fulltext_of paras_lower)) = Some ''acme''"
  "truthy (sniff_vendor (fulltext_of paras_again)) = Some ''ACME''"
  "py_lower ''ACME'' = py_lower ''acme''"
  by code_simp+

lemma entity_nodes_two:
  "entity_nodes (corpus_graph [doc_graph p1 c1 t1, doc_graph p2 c2 t2]) =
     (case truthy (sniff_vendor (fulltext_of c1)) of None \<Rightarrow> [] | Some v \<Rightarrow> [ent_id_of v]) @
     [k \<leftarrow> (case truthy (sniff_vendor (fulltext_of c2)) of None \<Rightarrow> [] | Some v \<Rightarrow> [ent_id_of v]).
        k \<notin> set (case truthy (sniff_vendor (fulltext_of c1)) of None \<Rightarrow> [] | Some v \<Rightarrow> [ent_id_of v])]"
proof -
  let ?E1 = "case truthy (sniff_vendor (fulltext_of c1)) of None \<Rightarrow> [] | Some v \<Rightarrow> [ent_id_of v]"
  let ?E2 = "case truthy (sniff_vendor (fulltext_of c2)) of None \<Rightarrow> [] | Some v \<Rightarrow> [ent_id_of v]"
  from tracked_compose [OF tracked_empty tracked_doc_graph [of p1 c1 t1]]
  have "tracked (compose empty_graph (doc_graph p1 c1 t1)) ?E1" by simp
  from tracked_compose [OF this tracked_doc_graph [of p2 c2 t2]]
  have "tracked (corpus_graph [doc_graph p1 c1 t1, doc_graph p2 c2 t2]) (?E1 @ [k \<leftarrow> ?E2. k \<notin> set ?E1])"
    by (simp add: corpus_graph_def)
  then show ?thesis by (simp add: tracked_def entity_nodes_eq)
qed

text \<open>
  C3, as the code has it: the ID of an \<open>Entity\<close> node is derived from the type and the
  vendor name as sniffed, without normalisation and without the document. For every
  non-empty list of documents whose sniffed vendor name is the same string, the merged
  corpus graph holds exactly one \<open>Entity\<close> node, the one of that name.
\<close>

theorem entity_dedup_same_name:
  assumes "docs \<noteq> []"
    and "\<forall>doc \<in> set docs. truthy (sniff_vendor (fulltext_of (fst (snd doc)))) = Some v"
  shows "entity_nodes (corpus_graph
           (map (\<lambda>doc. doc_graph (fst doc) (fst (snd doc)) (snd (snd doc))) docs)) = [ent_id_of v]"
proof -
  let ?gs = "map (\<lambda>doc. doc_graph (fst doc) (fst (snd doc)) (snd (snd doc))) docs"
  have "\<forall>g \<in> set ?gs. tracked g [ent_id_of v]"
  proof
    fix g assume "g \<in> set ?gs"
    then obtain doc where d: "doc \<in> set docs" "g = doc_graph (fst doc) (fst (snd doc)) (snd (snd doc))"
      by auto
    from tracked_doc_graph [of "fst doc" "fst (snd doc)" "snd (snd doc)"] assms(2) d
    show "tracked g [ent_id_of v]" by simp
  qed
  from tracked_corpus_same [OF tracked_empty _ this] assms(1)
  have "tracked (corpus_graph ?gs) [ent_id_of v]" by (simp add: corpus_graph_def)
  then show ?thesis by (simp add: tracked_def entity_nodes_eq)
qed

theorem entity_dedup_same_name_witness:
  "truthy (sniff_vendor (fulltext_of paras_upper)) = Some ''ACME'' \<and>
   truthy (sniff_vendor (fulltext_of paras_again)) = Some ''ACME'' \<and>
   entity_nodes (corpus_graph [doc_graph pdf_a paras_upper [], doc_graph pdf_b paras_again []]) =
     [''ENT:7926b8f32ca03e02'']"
proof -
  have "\<forall>doc \<in> set [(pdf_a, paras_upper, []), (pdf_b, paras_again, [])].
      truthy (sniff_vendor (fulltext_of (fst (snd doc)))) = Some ''ACME''"
    by (simp add: sniffed_vendors)
  from entity_dedup_same_name [OF _ this] sniffed_vendors ent_id_acme_upper
  show ?thesis by simp
qed

text \<open>
  C3, as the specification has it, fails: two documents whose vendor names differ in
  case only give two \<open>Entity\<close> nodes in the merged corpus graph.
\<close>

theorem entity_dedup_counterexample:
  "truthy (sniff_vendor (fulltext_of paras_upper)) = Some ''ACME'' \<and>
   truthy (sniff_vendor (fulltext_of paras_lower)) = Some ''acme'' \<and>
   py_lower ''ACME'' = py_lower ''acme'' \<and>
   entity_nodes (corpus_graph [doc_graph pdf_a paras_upper [], doc_graph pdf_b paras_lower []]) =
     [''ENT:7926b8f32ca03e02'', ''ENT:bbc4a469d673c321'']"
  using entity_nodes_two [of pdf_a paras_upper "[]" pdf_b paras_lower "[]"]
  by (simp add: sniffed_vendors ent_id_acme_upper ent_id_acme_lower)

section \<open>Properties of the retrieval engine\<close>

subsection \<open>Citations\<close>

text \<open>
  C9: \<open>resolve_refs\<close> returns one citation per cited ID, in input order, each carrying
  its ID; for an ID that the fragment map lacks, the docname, page and type fields are
  \<open>None\<close>. It has no failing branch.
\<close>

theorem resolve_refs_total:
  "length (resolve_refs cm refs) = length refs \<and>
   map cit_id (resolve_refs cm refs) = refs \<and>
   (\<forall>i < length refs. cm (refs ! i) = None \<longrightarrow>
      resolve_refs cm refs ! i =
        \<lparr>cit_id = refs ! i, cit_docname = ANone, cit_page = ANone, cit_type = ANone\<rparr>)"
  by (simp add: resolve_refs_def dict_get_def comp_def Let_def)

theorem resolve_refs_total_witness:
  "abc_map ([''PCH:a'', ''TBL:gone''] ! 1) = None \<and>
   resolve_refs abc_map [''PCH:a'', ''TBL:gone''] ! 1 =
     \<lparr>cit_id = ''TBL:gone'', cit_docname = ANone, cit_page = ANone, cit_type = ANone\<rparr> \<and>
   length (resolve_refs abc_map [''PCH:a'', ''TBL:gone'']) = 2"
proof -
  have absent: "abc_map ([''PCH:a'', ''TBL:gone''] ! 1) = None"
    by (simp add: abc_map_def)
  from resolve_refs_total [of abc_map "[''PCH:a'', ''TBL:gone'']"] absent
  show ?thesis by simp
qed

subsection \<open>Context assembly\<close>

lemma context_loop_spec:
  assumes "length texts < k"
  shows "context_loop cm scope k hits texts =
    (let surv = take (k - length texts) (filter (keeps cm scope) hits) in
     if \<forall>cid \<in> set surv. text_of cm cid \<noteq> None
     then Inr (texts @ map (\<lambda>cid. the (text_of cm cid)) surv)
     else Inl KeyError)"
  using assms
proof (induction hits arbitrary: texts)
  case Nil
  then show ?case by simp
next
  case (Cons cid hits)
  show ?case
  proof (cases "keeps cm scope cid")
    case False
    then show ?thesis using Cons
      by (auto simp: keeps_def split: option.splits)
  next
    case True
    then obtain rec where rec: "cm cid = Some rec" "rec \<noteq> []" "\<not> scope_skips scope cid"
      by (auto simp: keeps_def)
    obtain m where m: "k - length texts = Suc m"
      using Cons.prems by (cases "k - length texts") auto
    show ?thesis
    proof (cases "map_of rec ''text''")
      case None
      then show ?thesis using rec True m by (simp add: text_of_def)
    next
      case (Some t)
      show ?thesis
      proof (cases "k \<le> Suc (length texts)")
        case True
        then have "m = 0" using m by simp
        then show ?thesis
          using rec \<open>keeps cm scope cid\<close> m Some True by (simp add: text_of_def)
      next
        case False
        then have lt: "length (texts @ [t]) < k" by simp
        have m': "k - length (texts @ [t]) = m" using m by simp
        show ?thesis
          using rec \<open>keeps cm scope cid\<close> m Some False Cons.IH [OF lt] m'
          by (simp add: text_of_def Let_def)
      qed
    qed
  qed
qed

lemma top_context_spec:
  "0 < k \<Longrightarrow> top_context emb cm q scope k =
    (let surv = take k (filter (keeps cm scope) (emb q 60)) in
     if \<forall>cid \<in> set surv. text_of cm cid \<noteq> None
     then Inr (map (\<lambda>cid. the (text_of cm cid)) surv)
     else Inl KeyError)"
  by (simp add: top_context_def context_loop_spec Let_def)

text \<open>
  C4: with the cap 12, \<open>top_context\<close> returns the texts of the first 12 surviving hits
  in the order of the hits (a hit survives when the active scope holds its ID and the
  fragment map holds a record for it), so it never returns more than 12 items. The one
  failing branch is a surviving record without a \<open>text\<close> entry.
\<close>

theorem top_context_cap:
  "top_context emb cm q scope 12 =
     (let surv = take 12 (filter (keeps cm scope) (emb q 60)) in
      if \<forall>cid \<in> set surv. text_of cm cid \<noteq> None
      then Inr (map (\<lambda>cid. the (text_of cm cid)) surv)
      else Inl KeyError) \<and>
   (\<forall>ts. top_context emb cm q scope 12 = Inr ts \<longrightarrow> length ts \<le> 12)"
  by (auto simp: top_context_spec Let_def)

theorem top_context_cap_witness:
  "top_context many_emb many_map ''q'' (Some many_scope) 12 =
     Inr [AStr ''t01'', AStr ''t04'', AStr ''t05'', AStr ''t06'', AStr ''t07'', AStr ''t08'', AStr ''t09'', AStr ''t10'', AStr ''t11'', AStr ''t12'', AStr ''t13'', AStr ''t14''] \<and>
   length (filter (keeps many_map (Some many_scope)) (many_emb ''q'' 60)) = 13"
proof -
  have surv: "filter (keeps many_map (Some many_scope)) (many_emb ''q'' 60) =
      [''h01'', ''h04'', ''h05'', ''h06'', ''h07'', ''h08'', ''h09'', ''h10'', ''h11'', ''h12'',
       ''h13'', ''h14'', ''h15'']"
    by (simp add: keeps_def scope_skips_def many_emb_def many_map_def many_scope_def)
  have has_text: "\<forall>cid \<in> set (take 12 (filter (keeps many_map (Some many_scope)) (many_emb ''q'' 60))).
      text_of many_map cid \<noteq> None"
    unfolding surv by (simp add: text_of_def many_map_def)
  from top_context_cap [of many_emb many_map "''q''" "Some many_scope"] has_text
  have "top_context many_emb many_map ''q'' (Some many_scope) 12 =
      Inr (map (\<lambda>cid. the (text_of many_map cid))
        (take 12 (filter (keeps many_map (Some many_scope)) (many_emb ''q'' 60))))"
    by (simp add: Let_def)
  then show ?thesis
    unfolding surv by (simp add: text_of_def many_map_def)
qed

subsection \<open>Entity scope\<close>




lemma foldl_union: "foldl (\<lambda>scope e. scope \<union> f e) S es = S \<union> (\<Union>e \<in> set es. f e)"
  by (induction es arbitrary: S) auto



lemma no_targets_no_scope:
  assumes "\<forall>e \<in> set es. targets G e = []"
  shows "ask_scope G (Some es) = {}"
  using assms by (simp add: ask_scope_def foldl_union cids_for_entity_def)

text \<open>
  C1, as the code has it: when the requested names match no \<open>Entity\<close> node, the
  candidate set is empty, \<open>ask\<close> passes no scope to \<open>top_context\<close>, and the context is
  the one of the same question asked without an entity scope.
\<close>

theorem ask_unmatched_scope:
  assumes "\<forall>e \<in> set es. targets G e = []"
  shows "ask_scope G (Some es) = {} \<and>
         ask_context G cm emb q (Some es) = top_context emb cm q None 12 \<and>
         ask_context G cm emb q (Some es) = ask_context G cm emb q None"
  using no_targets_no_scope [OF assms] by (simp add: ask_context_def ask_scope_def)

theorem ask_unmatched_scope_witness:
  "targets abc_graph ''Nobody'' = [] \<and>
   ask_context abc_graph abc_map abc_emb ''q'' (Some [''Nobody'']) =
     top_context abc_emb abc_map ''q'' None 12"
proof -
  have none: "\<forall>e \<in> set [''Nobody'']. targets abc_graph e = []"
    by (simp add: targets_def abc_graph_def dict_get_def dict_get_default_def py_lower_def
        lower_char_def)
  from ask_unmatched_scope [OF none, of abc_map abc_emb "''q''"] none
  show ?thesis by simp
qed

text \<open>
  C1, as the specification has it, fails: scoped to a name that matches no entity, the
  context holds the texts of the unscoped hits.
\<close>

theorem ask_unmatched_scope_counterexample:
  "targets abc_graph ''Nobody'' = [] \<and> ask_scope abc_graph (Some [''Nobody'']) = {} \<and>
   ask_context abc_graph abc_map abc_emb ''q'' (Some [''Nobody'']) =
     Inr [AStr ''gamma'', AStr ''alpha'']"
  by (simp add: ask_context_def ask_scope_def cids_for_entity_def targets_def abc_graph_def
      dict_get_def dict_get_default_def py_lower_def lower_char_def top_context_def abc_emb_def
      abc_map_def scope_skips_def)

end
